theory Spec2Isabelle
  imports Main "HOL-Library.Multiset"
begin

section \<open>JavaScript values and string helpers\<close>

text \<open>
  The script \<^verbatim>\<open>check-compat.ts\<close> works on strings, on values that may be
  \<^verbatim>\<open>undefined\<close> and on arrays. A string is a \<^typ>\<open>string\<close>, a value that may be
  undefined is a \<^typ>\<open>string option\<close>, an array is a list. JavaScript tests such values
  for truthiness: \<^verbatim>\<open>undefined\<close> and the empty string are falsy, every other string
  is truthy.
\<close>

definition truthy :: "string option \<Rightarrow> bool" where
  "truthy x = (case x of None \<Rightarrow> False | Some s \<Rightarrow> s \<noteq> [])"

text \<open>\<^verbatim>\<open>a || b\<close> on such values.\<close>

definition js_or :: "string option \<Rightarrow> string option \<Rightarrow> string option" where
  "js_or a b = (if truthy a then a else b)"

text \<open>A value inside a template literal: \<^verbatim>\<open>`${x}`\<close> prints \<^verbatim>\<open>undefined\<close> as a word.\<close>

definition template :: "string option \<Rightarrow> string" where
  "template x = (case x of None \<Rightarrow> ''undefined'' | Some s \<Rightarrow> s)"

text \<open>\<^verbatim>\<open>s.startsWith(p)\<close> and \<^verbatim>\<open>s.includes(sub)\<close>.\<close>

fun startsWith :: "string \<Rightarrow> string \<Rightarrow> bool" where
  "startsWith s [] = True"
| "startsWith [] (c # p) = False"
| "startsWith (d # s) (c # p) = (d = c \<and> startsWith s p)"

fun includes_str :: "string \<Rightarrow> string \<Rightarrow> bool" where
  "includes_str [] sub = (sub = [])"
| "includes_str (c # s) sub = (startsWith (c # s) sub \<or> includes_str s sub)"

text \<open>
  \<^verbatim>\<open>s.toLowerCase()\<close> on the ASCII letters. The script only searches the lowered
  text for ASCII words, and no character outside ASCII lowers to a letter of those words.
\<close>

definition lower_char :: "char \<Rightarrow> char" where
  "lower_char c =
     (case map_of (zip ''ABCDEFGHIJKLMNOPQRSTUVWXYZ'' ''abcdefghijklmnopqrstuvwxyz'') c of
        None \<Rightarrow> c | Some l \<Rightarrow> l)"

definition toLowerCase :: "string \<Rightarrow> string" where
  "toLowerCase s = map lower_char s"

text \<open>A natural number printed in decimal, as a template literal prints it.\<close>

definition digit_char :: "nat \<Rightarrow> char" where
  "digit_char d = ''0123456789'' ! (d mod 10)"

function string_of_nat :: "nat \<Rightarrow> string" where
  "string_of_nat n =
     (if n < 10 then [digit_char n] else string_of_nat (n div 10) @ [digit_char (n mod 10)])"
  by pat_completeness auto
termination
  by (relation "measure id") auto

declare string_of_nat.simps [simp del]

text \<open>
  \<^verbatim>\<open>xs.sort(cmp)\<close> with a comparator. The sort of JavaScript is stable, and for a
  comparator that is a total preorder every stable sort returns the same array; it is
  modelled by the stable insertion sort. For any comparator the result is a permutation.
\<close>

fun insert_cmp :: "('a \<Rightarrow> 'a \<Rightarrow> int) \<Rightarrow> 'a \<Rightarrow> 'a list \<Rightarrow> 'a list" where
  "insert_cmp cmp x [] = [x]"
| "insert_cmp cmp x (y # ys) = (if cmp x y \<le> 0 then x # y # ys else y # insert_cmp cmp x ys)"

fun sort_cmp :: "('a \<Rightarrow> 'a \<Rightarrow> int) \<Rightarrow> 'a list \<Rightarrow> 'a list" where
  "sort_cmp cmp [] = []"
| "sort_cmp cmp (x # xs) = insert_cmp cmp x (sort_cmp cmp xs)"

section \<open>Data model\<close>

text \<open>The entry of a dependency (\<^verbatim>\<open>DepEntry\<close>) and the result row (\<^verbatim>\<open>DepInfo & {isDev}\<close>).\<close>

record DepEntry =
  name :: string
  current :: string
  isDev :: bool

record DepInfo = DepEntry +
  latest :: "string option"
  earliestCompat :: "string option"
  latestCompat :: "string option"
  peerAngular :: "string option"
  versionsBehindLatestCompat :: "string option"
  recommendedVersion :: "string option"
  note' :: "string option"
  migrationLink :: "string option"

text \<open>
  The command line, as the script reads it into its global constants. \<open>fastLimit\<close> is a
  number that may be zero or negative (both switch the fast scan off, see the test
  \<^verbatim>\<open>fastLimit > 0\<close>); \<open>jobs\<close> is positive. The script reads the three numbers with
  \<^verbatim>\<open>Number\<close>, which also accepts fractions; here they are whole numbers, as the
  options are meant.
\<close>

record config =
  includePrerelease :: bool
  showProgress :: bool
  exhaustive :: bool
  verbose :: bool
  fastLimit :: int
  jobs :: nat
  angularMajor :: nat

text \<open>
  Lines 24 to 39 of the script compute \<open>fastLimit\<close> and \<open>jobs\<close> from the arguments.
  The argument is \<open>None\<close> when the flag is absent; a flag without a number, or with
  text that is not a number, carries \<open>None\<close> inside.
\<close>

definition fastLimit_of_arg :: "int option option \<Rightarrow> int" where
  "fastLimit_of_arg fastArg =
     (case fastArg of
        None \<Rightarrow> 0
      | Some None \<Rightarrow> 15
      | Some (Some n) \<Rightarrow> (if n = 0 then 15 else n))"

definition jobs_of_arg :: "int option option \<Rightarrow> nat" where
  "jobs_of_arg jobsArg =
     (case jobsArg of
        Some (Some n) \<Rightarrow> (if n > 0 then nat n else 4)
      | _ \<Rightarrow> 4)"

text \<open>What \<^verbatim>\<open>npm view\<close> answers: the metadata of a package, and its keywords.\<close>

record meta =
  version :: "string option"
  versions :: "string list option"
  homepage :: "string option"
  repository_url :: "string option"

record pkginfo =
  keyword_list :: "string list"
  description :: string

text \<open>
  The world outside the script: the registry behind \<^verbatim>\<open>npm view\<close> (a query that
  fails is \<open>None\<close>), the semver library, the collation of \<^verbatim>\<open>localeCompare\<close>, and the
  clock (\<open>date_now k\<close> is what the \<open>k\<close>-th call of \<^verbatim>\<open>Date.now()\<close> returns).
  \<open>semver_valid\<close> and \<open>semver_prerelease\<close> are the truthiness of what
  \<^verbatim>\<open>semver.valid\<close> and \<^verbatim>\<open>semver.prerelease\<close> return; \<open>semver_parse\<close> gives the
  major, minor and patch numbers.
\<close>

record env =
  npm_view :: "string \<Rightarrow> meta option"
  npm_view_peerDependencies :: "string \<Rightarrow> string \<Rightarrow> (string \<rightharpoonup> string) option"
  npm_view_info :: "string \<Rightarrow> pkginfo option"
  semver_valid :: "string \<Rightarrow> bool"
  semver_prerelease :: "string \<Rightarrow> bool"
  semver_rcompare :: "string \<Rightarrow> string \<Rightarrow> int"
  semver_satisfies :: "string \<Rightarrow> string \<Rightarrow> bool \<Rightarrow> bool"
  semver_parse :: "string \<Rightarrow> (nat \<times> nat \<times> nat) option"
  semver_eq :: "string \<Rightarrow> string \<Rightarrow> bool"
  semver_gt :: "string \<Rightarrow> string \<Rightarrow> bool"
  localeCompare :: "string \<Rightarrow> string \<Rightarrow> int"
  date_now :: "nat \<Rightarrow> int"

text \<open>
  The mutable globals of the script. \<open>stderr\<close> collects what \<^verbatim>\<open>redrawScreen\<close> draws,
  one frame for each call: the finished count, the total, and the status line of each
  worker (the escape sequences and the bar are not modelled). \<open>clockReads\<close> counts the
  calls of \<^verbatim>\<open>Date.now()\<close>.
\<close>

record globals =
  results :: "DepInfo list"
  finished :: nat
  versionQueries :: nat
  total_count :: nat
  workerCount :: nat
  workerStatuses :: "nat \<rightharpoonup> string"
  displayInitialized :: bool
  lastRedrawTime :: int
  clockReads :: nat
  stderr :: "(nat \<times> nat \<times> string list) list"

section \<open>Small functions of the script\<close>

definition MIGRATION_LINKS :: "(string \<times> string) list" where
  "MIGRATION_LINKS =
    [(''@angular/core'', ''https://update.angular.io/''),
     (''@angular/common'', ''https://update.angular.io/''),
     (''@angular/forms'', ''https://update.angular.io/''),
     (''@angular/router'', ''https://update.angular.io/''),
     (''@angular/platform-browser'', ''https://update.angular.io/''),
     (''@angular/platform-browser-dynamic'', ''https://update.angular.io/''),
     (''@angular/compiler'', ''https://update.angular.io/''),
     (''@angular/compiler-cli'', ''https://update.angular.io/''),
     (''@angular/cli'', ''https://update.angular.io/''),
     (''@angular/build'', ''https://github.com/angular/angular-cli/releases''),
     (''@angular/language-service'', ''https://github.com/angular/angular/releases''),
     (''@ionic/angular'', ''https://ionicframework.com/docs/reference/versioning#release-notes''),
     (''@ionic/angular-toolkit'', ''https://github.com/ionic-team/angular-toolkit/releases''),
     (''@capacitor/core'', ''https://capacitorjs.com/docs/updating''),
     (''@capacitor/cli'', ''https://capacitorjs.com/docs/updating''),
     (''@capacitor/app'', ''https://capacitorjs.com/docs/updating''),
     (''@capacitor/haptics'', ''https://capacitorjs.com/docs/updating''),
     (''@capacitor/keyboard'', ''https://capacitorjs.com/docs/updating''),
     (''@capacitor/status-bar'', ''https://capacitorjs.com/docs/updating''),
     (''@ngxs/store'', ''https://ngxs.gitbook.io/ngxs/migrations''),
     (''@ngxs/logger-plugin'', ''https://ngxs.gitbook.io/ngxs/migrations''),
     (''@ngxs/devtools-plugin'', ''https://ngxs.gitbook.io/ngxs/migrations''),
     (''ngxs-reset-plugin'', ''https://github.com/ngxs-labs/reset-plugin/releases''),
     (''@ngneat/until-destroy'', ''https://github.com/ngneat/until-destroy/releases''),
     (''@ngx-translate/core'', ''https://github.com/ngx-translate/core/releases''),
     (''@ngx-translate/http-loader'', ''https://github.com/ngx-translate/http-loader/releases''),
     (''ionicons'', ''https://github.com/ionic-team/ionicons/releases''),
     (''ngx-ellipsis'', ''https://github.com/lentschi/ngx-ellipsis/releases''),
     (''survey-angular-ui'', ''https://github.com/surveyjs/survey-library/blob/master/CHANGELOG.md''),
     (''@angular-eslint/builder'', ''https://github.com/angular-eslint/angular-eslint/blob/main/CHANGELOG.md''),
     (''@angular-eslint/eslint-plugin'', ''https://github.com/angular-eslint/angular-eslint/blob/main/CHANGELOG.md''),
     (''@angular-eslint/eslint-plugin-template'', ''https://github.com/angular-eslint/angular-eslint/blob/main/CHANGELOG.md''),
     (''@angular-eslint/schematics'', ''https://github.com/angular-eslint/angular-eslint/blob/main/CHANGELOG.md''),
     (''@angular-eslint/template-parser'', ''https://github.com/angular-eslint/angular-eslint/blob/main/CHANGELOG.md''),
     (''@typescript-eslint/eslint-plugin'', ''https://github.com/typescript-eslint/typescript-eslint/blob/main/packages/eslint-plugin/CHANGELOG.md''),
     (''@typescript-eslint/parser'', ''https://github.com/typescript-eslint/typescript-eslint/blob/main/packages/parser/CHANGELOG.md''),
     (''eslint'', ''https://github.com/eslint/eslint/releases''),
     (''eslint-config-prettier'', ''https://github.com/prettier/eslint-config-prettier/blob/main/CHANGELOG.md''),
     (''eslint-plugin-prettier'', ''https://github.com/prettier/eslint-plugin-prettier/blob/master/CHANGELOG.md''),
     (''prettier'', ''https://github.com/prettier/prettier/releases''),
     (''stylelint'', ''https://github.com/stylelint/stylelint/blob/main/CHANGELOG.md''),
     (''stylelint-config-standard'', ''https://github.com/stylelint/stylelint-config-standard/releases''),
     (''stylelint-config-standard-scss'', ''https://github.com/stylelint-scss/stylelint-config-standard-scss/releases''),
     (''jest'', ''https://github.com/jestjs/jest/blob/main/CHANGELOG.md''),
     (''jest-preset-angular'', ''https://github.com/thymikee/jest-preset-angular/blob/main/CHANGELOG.md''),
     (''@types/jest'', ''https://github.com/DefinitelyTyped/DefinitelyTyped/tree/master/types/jest''),
     (''jest-junit'', ''https://github.com/jest-community/jest-junit/releases''),
     (''jest-sonar-reporter'', ''https://github.com/3dmind/jest-sonar-reporter/releases''),
     (''rxjs'', ''https://rxjs.dev/deprecations''),
     (''zone.js'', ''https://github.com/angular/angular/blob/main/packages/zone.js/CHANGELOG.md''),
     (''typescript'', ''https://devblogs.microsoft.com/typescript/''),
     (''lodash-es'', ''https://github.com/lodash/lodash/wiki/Changelog''),
     (''jwt-decode'', ''https://github.com/auth0/jwt-decode/blob/master/CHANGELOG.md''),
     (''ua-parser-js'', ''https://github.com/faisalman/ua-parser-js/blob/master/CHANGELOG.md''),
     (''@types/ua-parser-js'', ''https://github.com/DefinitelyTyped/DefinitelyTyped/tree/master/types/ua-parser-js''),
     (''ts-node'', ''https://github.com/TypeStrong/ts-node/blob/main/CHANGELOG.md''),
     (''tslib'', ''https://github.com/microsoft/tslib/releases''),
     (''sonarqube-scanner'', ''https://github.com/SonarSource/sonarqube-scanner-npm/blob/master/CHANGELOG.md''),
     (''sonarjs'', ''https://github.com/SonarSource/eslint-plugin-sonarjs/blob/master/CHANGELOG.md''),
     (''replace-in-file'', ''https://github.com/adamreisnz/replace-in-file/blob/master/CHANGELOG.md''),
     (''ncp'', ''https://github.com/AvianFlu/ncp/issues'')]"

definition satisfiesAngular :: "env \<Rightarrow> config \<Rightarrow> string \<Rightarrow> nat \<Rightarrow> bool" where
  "satisfiesAngular E cfg rng major =
     semver_satisfies E (string_of_nat major @ ''.0.0'') rng (includePrerelease cfg)"

text \<open>\<^verbatim>\<open>v.replace(/^[~^]/, '')\<close> removes one leading tilde or caret.\<close>

fun stripRange :: "string \<Rightarrow> string" where
  "stripRange [] = []"
| "stripRange (c # s) = (if c = CHR ''~'' \<or> c = CHR ''^'' then s else c # s)"

text \<open>
  \<^verbatim>\<open>resolveMigrationLink\<close>. Every link of the table is a non-empty string, so the test
  \<^verbatim>\<open>MIGRATION_LINKS[name]\<close> is the test that the table has the name.
\<close>

definition resolveMigrationLink :: "string \<Rightarrow> meta \<Rightarrow> string" where
  "resolveMigrationLink nm m =
     (case map_of MIGRATION_LINKS nm of
        Some l \<Rightarrow> l
      | None \<Rightarrow>
          if startsWith nm ''@ptp/'' then ''''
          else template (js_or (js_or (homepage m) (repository_url m)) (Some '''')))"

subsection \<open>The progress display\<close>

definition redrawScreen :: "config \<Rightarrow> globals \<Rightarrow> globals" where
  "redrawScreen cfg g =
     (if \<not> showProgress cfg then g
      else g\<lparr>stderr := stderr g @
             [(finished g, total_count g,
               map (\<lambda>i. template (js_or (workerStatuses g i) (Some ''Initializing...'')))
                 [0..<workerCount g])]\<rparr>)"

definition updateWorkerStatus :: "env \<Rightarrow> config \<Rightarrow> nat \<Rightarrow> string \<Rightarrow> globals \<Rightarrow> globals" where
  "updateWorkerStatus E cfg workerId status g =
     (if \<not> showProgress cfg \<or> \<not> displayInitialized g then g
      else
        let g1 = g\<lparr>workerStatuses := (workerStatuses g)(workerId \<mapsto> status)\<rparr>;
            now = date_now E (clockReads g1);
            g2 = g1\<lparr>clockReads := clockReads g1 + 1\<rparr>
        in if now - lastRedrawTime g2 > 100
           then redrawScreen cfg (g2\<lparr>lastRedrawTime := now\<rparr>)
           else g2)"

section \<open>The heuristic classifier\<close>

definition angularCompatiblePackages :: "string list" where
  "angularCompatiblePackages =
     [''rxjs'', ''zone.js'', ''tslib'', ''typescript'',
      ''lodash'', ''lodash-es'', ''moment'', ''date-fns'',
      ''jwt-decode'', ''ua-parser-js'', ''uuid'',
      ''@types/node'', ''@types/jest'', ''@types/jasmine'',
      ''jest'', ''jasmine'', ''karma'', ''protractor'',
      ''eslint'', ''prettier'', ''stylelint'',
      ''webpack'', ''rollup'', ''vite'']"

definition angularKeywords :: "string list" where
  "angularKeywords = [''angular'', ''ng'', ''ngx'']"

definition utilityKeywords :: "string list" where
  "utilityKeywords = [''utility'', ''util'', ''helper'', ''tool'', ''library'', ''polyfill'']"

text \<open>
  \<^verbatim>\<open>checkAngularCompatibility\<close> returns \<^verbatim>\<open>{isCompatible, reason}\<close>. A failing query
  is caught inside the function and answers \<^verbatim>\<open>isCompatible: false\<close>.
\<close>

definition checkAngularCompatibility ::
  "env \<Rightarrow> config \<Rightarrow> string \<Rightarrow> string option \<Rightarrow> string list \<Rightarrow> nat \<Rightarrow> globals
     \<Rightarrow> (bool \<times> string) \<times> globals" where
  "checkAngularCompatibility E cfg nm latestV allVersions workerId g =
     (if list_ex (\<lambda>pkg. startsWith nm pkg) angularCompatiblePackages
      then ((True, ''Known Angular-compatible package''), g)
      else
        let g1 = updateWorkerStatus E cfg workerId (''checking Angular compat '' @ nm) g in
        case npm_view_info E nm of
          None \<Rightarrow> ((False, ''Failed to check compatibility''), g1)
        | Some packageInfo \<Rightarrow>
            let hasAngularKeywords =
                  list_ex (\<lambda>keyword. list_ex (\<lambda>ng. includes_str (toLowerCase keyword) ng)
                    angularKeywords) (keyword_list packageInfo);
                hasAngularDescription =
                  list_ex (\<lambda>ng. includes_str (toLowerCase (description packageInfo)) ng)
                    angularKeywords
            in
              if hasAngularKeywords \<or> hasAngularDescription then
                (if (case latestV of None \<Rightarrow> False | Some l \<Rightarrow> semver_parse E l \<noteq> None)
                    \<and> take 5 allVersions \<noteq> []
                 then ((True, ''Angular-related package with recent updates''), g1)
                 else ((False, ''Angular-related but may be outdated''), g1))
              else
                let hasUtilityKeywords =
                      list_ex (\<lambda>keyword. list_ex (\<lambda>util. includes_str (toLowerCase keyword) util)
                        utilityKeywords) (keyword_list packageInfo)
                in
                  if hasUtilityKeywords \<or> startsWith nm ''@types/''
                  then ((True, ''Framework-agnostic utility package''), g1)
                  else ((True, ''No explicit framework dependencies detected''), g1))"

section \<open>The version scanner\<close>

text \<open>
  The local variables of \<^verbatim>\<open>processPackage\<close> that the two scanning loops update.
  \<open>peerAngularSeen\<close> is the local \<^verbatim>\<open>peerAngular\<close> (the name is taken by the field of
  the result row). \<open>probed\<close> is the trace of the scan: the versions whose peer
  dependencies were queried (one \<^verbatim>\<open>execRaw\<close> call each), in the order of the calls.
\<close>

record scan =
  peerAngularSeen :: "string option"
  compatVersions :: "string list"
  hasAngularPeerDep :: bool
  currentVersionFound :: bool
  versionIndex :: nat
  probed :: "string list"

text \<open>
  \<^verbatim>\<open>peerDeps['@angular/core'] || peerDeps.angular\<close>, where a failing query leaves
  \<^verbatim>\<open>peerDeps = {}\<close>.
\<close>

definition peerOf :: "env \<Rightarrow> string \<Rightarrow> string \<Rightarrow> string option" where
  "peerOf E nm v =
     (let peerDeps = (case npm_view_peerDependencies E nm v of None \<Rightarrow> Map.empty | Some m \<Rightarrow> m)
      in js_or (peerDeps ''@angular/core'') (peerDeps ''angular''))"

text \<open>\<^verbatim>\<open>!peer || satisfiesAngular(peer, angularMajor)\<close>.\<close>

definition peerAllows :: "env \<Rightarrow> config \<Rightarrow> string option \<Rightarrow> bool" where
  "peerAllows E cfg peer =
     (case peer of
        None \<Rightarrow> True
      | Some r \<Rightarrow> r = [] \<or> satisfiesAngular E cfg r (angularMajor cfg))"

text \<open>The body of the first loop (lines 353 to 383), without its \<^verbatim>\<open>break\<close>.\<close>

definition scanVersion ::
  "env \<Rightarrow> config \<Rightarrow> string \<Rightarrow> nat \<Rightarrow> string \<Rightarrow> string \<Rightarrow> scan \<times> globals \<Rightarrow> scan \<times> globals" where
  "scanVersion E cfg nm workerId currentClean v sg =
     (let s = fst sg;
          g1 = updateWorkerStatus E cfg workerId (''scan '' @ nm @ ''@'' @ v) (snd sg);
          g2 = g1\<lparr>versionQueries := versionQueries g1 + 1\<rparr>;
          peer = peerOf E nm v;
          s1 = s\<lparr>probed := probed s @ [v]\<rparr>;
          s2 = (if truthy peer
                then s1\<lparr>hasAngularPeerDep := True,
                        peerAngularSeen :=
                          (if \<not> truthy (peerAngularSeen s1) then peer else peerAngularSeen s1)\<rparr>
                else s1);
          s3 = (if peerAllows E cfg peer
                then s2\<lparr>compatVersions := compatVersions s2 @ [v]\<rparr> else s2);
          s4 = (if v = currentClean then s3\<lparr>currentVersionFound := True\<rparr> else s3)
      in (s4\<lparr>versionIndex := versionIndex s4 + 1\<rparr>, g2))"

fun scanLoop ::
  "env \<Rightarrow> config \<Rightarrow> string \<Rightarrow> nat \<Rightarrow> string \<Rightarrow> string list \<Rightarrow> scan \<times> globals
     \<Rightarrow> scan \<times> globals" where
  "scanLoop E cfg nm workerId currentClean [] sg = sg"
| "scanLoop E cfg nm workerId currentClean (v # vs) sg =
     (let sg' = scanVersion E cfg nm workerId currentClean v sg in
      if \<not> exhaustive cfg \<and> \<not> hasAngularPeerDep (fst sg') \<and> compatVersions (fst sg') \<noteq> []
      then sg'
      else scanLoop E cfg nm workerId currentClean vs sg')"

text \<open>The body of the second loop (lines 392 to 415), without its \<^verbatim>\<open>break\<close>.\<close>

definition scanExtended ::
  "env \<Rightarrow> config \<Rightarrow> string \<Rightarrow> nat \<Rightarrow> string \<Rightarrow> scan \<times> globals \<Rightarrow> scan \<times> globals" where
  "scanExtended E cfg nm workerId v sg =
     (let s = fst sg;
          g1 = updateWorkerStatus E cfg workerId
                 (''scan '' @ nm @ ''@'' @ v @ '' (extended)'') (snd sg);
          g2 = g1\<lparr>versionQueries := versionQueries g1 + 1\<rparr>;
          peer = peerOf E nm v;
          s1 = s\<lparr>probed := probed s @ [v]\<rparr>;
          s2 = (if truthy peer \<and> \<not> truthy (peerAngularSeen s1)
                then s1\<lparr>peerAngularSeen := peer\<rparr> else s1);
          s3 = (if peerAllows E cfg peer
                then s2\<lparr>compatVersions := compatVersions s2 @ [v]\<rparr> else s2)
      in (s3, g2))"

fun extendLoop ::
  "env \<Rightarrow> config \<Rightarrow> string \<Rightarrow> nat \<Rightarrow> string \<Rightarrow> string list \<Rightarrow> scan \<times> globals
     \<Rightarrow> scan \<times> globals" where
  "extendLoop E cfg nm workerId currentClean [] sg = sg"
| "extendLoop E cfg nm workerId currentClean (v # vs) sg =
     (let sg' = scanExtended E cfg nm workerId v sg in
      if v = currentClean
      then ((fst sg')\<lparr>currentVersionFound := True\<rparr>, snd sg')
      else extendLoop E cfg nm workerId currentClean vs sg')"

text \<open>
  Lines 326 to 332: the versions of the package, valid ones only, newest first. When
  \<^verbatim>\<open>meta.versions\<close> is not an array the script takes \<^verbatim>\<open>[meta.version]\<close>; an
  undefined \<^verbatim>\<open>meta.version\<close> in it is dropped by the filter on \<^verbatim>\<open>semver.valid\<close>, so
  the list is empty then.
\<close>

definition listVersions :: "env \<Rightarrow> config \<Rightarrow> meta \<Rightarrow> string list" where
  "listVersions E cfg m =
     (let vs0 = (case versions m of
                   Some vs \<Rightarrow> vs
                 | None \<Rightarrow> (case version m of Some v \<Rightarrow> [v] | None \<Rightarrow> []));
          vs1 = filter (semver_valid E) vs0;
          vs2 = (if \<not> includePrerelease cfg
                 then filter (\<lambda>v. \<not> semver_prerelease E v) vs1 else vs1)
      in sort_cmp (semver_rcompare E) vs2)"

text \<open>Lines 337 to 343: the versions the first loop walks over.\<close>

definition versionsToCheck :: "config \<Rightarrow> string list \<Rightarrow> string list" where
  "versionsToCheck cfg vs = (if fastLimit cfg > 0 then take (nat (fastLimit cfg)) vs else vs)"

text \<open>Lines 334 to 416: both loops.\<close>

definition scanVersions ::
  "env \<Rightarrow> config \<Rightarrow> string \<Rightarrow> nat \<Rightarrow> string \<Rightarrow> string list \<Rightarrow> globals \<Rightarrow> scan \<times> globals" where
  "scanVersions E cfg nm workerId currentClean vs g =
     (let s0 = \<lparr>peerAngularSeen = None, compatVersions = [], hasAngularPeerDep = False,
                currentVersionFound =
                  (fastLimit cfg > 0 \<and> currentClean \<in> set (versionsToCheck cfg vs)),
                versionIndex = 0, probed = []\<rparr>;
          sg1 = scanLoop E cfg nm workerId currentClean (versionsToCheck cfg vs) (s0, g)
      in
        if hasAngularPeerDep (fst sg1) \<and> \<not> currentVersionFound (fst sg1) \<and> fastLimit cfg > 0
           \<and> versionIndex (fst sg1) < length vs
        then extendLoop E cfg nm workerId currentClean (drop (versionIndex (fst sg1)) vs)
               (fst sg1,
                updateWorkerStatus E cfg workerId
                  (''extending search for '' @ nm @ '' to find current version'') (snd sg1))
        else sg1)"

section \<open>The recommendation\<close>

text \<open>Lines 418 to 425: \<^verbatim>\<open>latestCompat\<close> and \<^verbatim>\<open>earliestCompat\<close>, in this order.\<close>

definition compatBounds :: "scan \<Rightarrow> string option \<times> string option" where
  "compatBounds s =
     (if hasAngularPeerDep s \<and> compatVersions s \<noteq> []
      then (Some (hd (compatVersions s)), Some (last (compatVersions s)))
      else if compatVersions s \<noteq> [] then (Some (hd (compatVersions s)), None)
      else (None, None))"

text \<open>
  Lines 427 to 504 hold the same comparison twice, against \<^verbatim>\<open>latestCompat\<close> and
  against \<^verbatim>\<open>latest\<close>, with different words. \<open>versionDistance\<close> is that comparison;
  its flag chooses the words of the first copy. It is reached only with two versions
  that parse, on which \<^verbatim>\<open>semver.eq\<close> and \<^verbatim>\<open>semver.gt\<close> do not throw.
\<close>

definition pluralDiff :: "int \<Rightarrow> string \<Rightarrow> string" where
  "pluralDiff d what =
     string_of_nat (nat d) @ '' '' @ what @ '' version'' @ (if d > 1 then ''s'' else '''')"

definition versionDistance :: "env \<Rightarrow> bool \<Rightarrow> string \<Rightarrow> string \<Rightarrow> string" where
  "versionDistance E againstCompat currentClean base =
     (case (semver_parse E currentClean, semver_parse E base) of
        (Some (cMajor, cMinor, cPatch), Some (bMajor, bMinor, bPatch)) \<Rightarrow>
          if semver_eq E currentClean base then
            (if againstCompat then ''Up to date with latest compatible'' else ''Up to date'')
          else if semver_gt E currentClean base then
            (if againstCompat then ''Ahead of latest compatible'' else ''Ahead of latest'')
          else
            let majorDiff = int bMajor - int cMajor;
                minorDiff = int bMinor - int cMinor;
                patchDiff = int bPatch - int cPatch;
                behind = (if againstCompat then '' behind latest compatible'' else '' behind'')
            in
              if majorDiff > 0 then pluralDiff majorDiff ''major'' @ behind
              else if minorDiff > 0 then pluralDiff minorDiff ''minor'' @ behind
              else if patchDiff > 0 then pluralDiff patchDiff ''patch'' @ behind
              else if againstCompat then ''Behind latest compatible (version format difference)''
              else ''Behind (version format difference)''
      | _ \<Rightarrow> ''Invalid version format'')"

definition versionsBehindDisplay :: "env \<Rightarrow> scan \<Rightarrow> string \<Rightarrow> string option \<Rightarrow> string" where
  "versionsBehindDisplay E s currentClean latestV =
     (let latestCompatV = fst (compatBounds s) in
      if hasAngularPeerDep s then
        (if truthy latestCompatV \<and> currentClean \<noteq> []
         then versionDistance E True currentClean (template latestCompatV)
         else if \<not> truthy latestCompatV then ''No compatible version found''
         else ''Unknown'')
      else
        (if truthy latestV \<and> currentClean \<noteq> []
         then versionDistance E False currentClean (template latestV)
         else ''Unknown''))"

text \<open>Lines 512 to 576: the display values of the row.\<close>

record display =
  earliestCompatDisplay :: string
  latestCompatDisplay :: string
  peerAngularDisplay :: string
  noteDisplay :: string
  recommendedVersionDisplay :: string

definition displayValues ::
  "config \<Rightarrow> scan \<Rightarrow> string \<Rightarrow> string option \<Rightarrow> bool \<times> string \<Rightarrow> display" where
  "displayValues cfg s currentClean latestV angularCompatibilityInfo =
     (let latestCompatV = fst (compatBounds s);
          earliestCompatV = snd (compatBounds s);
          d0 = \<lparr>earliestCompatDisplay = '''', latestCompatDisplay = '''',
                peerAngularDisplay = '''', noteDisplay = '''',
                recommendedVersionDisplay = ''''\<rparr>
      in
      if hasAngularPeerDep s then
        (let d1 = d0\<lparr>earliestCompatDisplay := template (js_or earliestCompatV (Some '''')),
                     latestCompatDisplay := template (js_or latestCompatV (Some '''')),
                     peerAngularDisplay := template (js_or (peerAngularSeen s) (Some ''''))\<rparr>
         in
         if \<not> truthy latestCompatV then
           d1\<lparr>noteDisplay :=
                 ''No compatible version found for Angular '' @ string_of_nat (angularMajor cfg),
               recommendedVersionDisplay := ''n/a''\<rparr>
         else if currentClean \<in> set (compatVersions s) then
           d1\<lparr>noteDisplay := ''Current version is compatible'',
               recommendedVersionDisplay :=
                 (if Some currentClean = latestCompatV then ''#3 Keep current version''
                  else ''#2 Optionally upgrade to '' @ template latestCompatV)\<rparr>
         else
           d1\<lparr>recommendedVersionDisplay :=
                 (if truthy earliestCompatV
                  then ''#1 Must upgrade to '' @ template earliestCompatV
                  else ''n/a''),
               noteDisplay :=
                 (if latestCompatV = Some currentClean then ''Up to date''
                  else if latestCompatV \<noteq> latestV \<and> truthy latestV \<and> latestV \<noteq> latestCompatV
                  then ''Newer latest likely needs different Angular peer or is prerelease''
                  else if latestCompatV \<noteq> Some currentClean
                  then ''Upgradable within Angular '' @ string_of_nat (angularMajor cfg)
                  else '''')\<rparr>)
      else
        (let d1 = d0\<lparr>earliestCompatDisplay := ''n/a'',
                     latestCompatDisplay := ''n/a'',
                     peerAngularDisplay := ''Does not depend on Angular''\<rparr>
         in
         if fst angularCompatibilityInfo then
           d1\<lparr>noteDisplay :=
                 ''Likely compatible with Angular '' @ string_of_nat (angularMajor cfg)
                   @ '' - '' @ snd angularCompatibilityInfo,
               recommendedVersionDisplay :=
                 (if Some currentClean = latestV then ''#3 Keep current version''
                  else ''#2 Optionally upgrade to '' @ template latestV)\<rparr>
         else
           d1\<lparr>noteDisplay :=
                 ''May not be compatible with Angular '' @ string_of_nat (angularMajor cfg)
                   @ '' - '' @ snd angularCompatibilityInfo,
               recommendedVersionDisplay :=
                 (if truthy latestV \<and> Some currentClean \<noteq> latestV
                  then ''#1 Must upgrade to '' @ template latestV
                  else ''n/a'')\<rparr>))"

section \<open>Processing one package\<close>

text \<open>Lines 578 to 590: the row of a package whose metadata was fetched.\<close>

definition packageInfo ::
  "env \<Rightarrow> config \<Rightarrow> DepEntry \<Rightarrow> meta \<Rightarrow> scan \<Rightarrow> bool \<times> string \<Rightarrow> DepInfo" where
  "packageInfo E cfg entry m s angularCompatibilityInfo =
     (let currentClean = stripRange (current entry);
          d = displayValues cfg s currentClean (version m) angularCompatibilityInfo
      in \<lparr>name = name entry,
          current = current entry,
          isDev = isDev entry,
          latest = version m,
          earliestCompat = Some (earliestCompatDisplay d),
          latestCompat = Some (latestCompatDisplay d),
          peerAngular = Some (peerAngularDisplay d),
          versionsBehindLatestCompat = Some (versionsBehindDisplay E s currentClean (version m)),
          recommendedVersion = Some (recommendedVersionDisplay d),
          note' = Some (noteDisplay d),
          migrationLink = Some (resolveMigrationLink (name entry) m)\<rparr>)"

text \<open>Lines 596 to 607: the row pushed by the \<^verbatim>\<open>catch\<close> block.\<close>

definition failureInfo :: "DepEntry \<Rightarrow> DepInfo" where
  "failureInfo entry =
     \<lparr>name = name entry,
      current = current entry,
      isDev = isDev entry,
      latest = None,
      earliestCompat = Some ''n/a'',
      latestCompat = Some ''n/a'',
      peerAngular = Some ''Unknown'',
      versionsBehindLatestCompat = Some ''Unknown'',
      recommendedVersion = Some ''n/a'',
      note' = Some ''Failed to fetch metadata'',
      migrationLink = map_of MIGRATION_LINKS (name entry)\<rparr>"

text \<open>
  The scan of a package whose metadata is \<open>m\<close>, and the answer of the heuristic
  classifier, which is only asked when the scan saw no Angular peer dependency
  (lines 506 to 510).
\<close>

definition scanPackage ::
  "env \<Rightarrow> config \<Rightarrow> DepEntry \<Rightarrow> meta \<Rightarrow> nat \<Rightarrow> globals \<Rightarrow> scan \<times> globals" where
  "scanPackage E cfg entry m workerId g =
     scanVersions E cfg (name entry) workerId (stripRange (current entry))
       (listVersions E cfg m) g"

definition heuristicInfo ::
  "env \<Rightarrow> config \<Rightarrow> DepEntry \<Rightarrow> meta \<Rightarrow> nat \<Rightarrow> scan \<times> globals \<Rightarrow> (bool \<times> string) \<times> globals" where
  "heuristicInfo E cfg entry m workerId sg =
     (if \<not> hasAngularPeerDep (fst sg)
      then checkAngularCompatibility E cfg (name entry) (version m) (listVersions E cfg m)
             workerId (snd sg)
      else ((True, ''''), snd sg))"

text \<open>
  \<^verbatim>\<open>processPackage\<close>: the \<^verbatim>\<open>try\<close> block when the metadata query answers, the
  \<^verbatim>\<open>catch\<close> block when it fails, and the \<^verbatim>\<open>finally\<close> block after both.
\<close>

definition processPackage :: "env \<Rightarrow> config \<Rightarrow> DepEntry \<Rightarrow> nat \<Rightarrow> globals \<Rightarrow> globals" where
  "processPackage E cfg entry workerId g =
     (let g0 = updateWorkerStatus E cfg workerId (''meta '' @ name entry) g;
          g' = (case npm_view E (name entry) of
                  None \<Rightarrow>
                    let g1 = g0\<lparr>results := results g0 @ [failureInfo entry]\<rparr> in
                    if verbose cfg
                    then updateWorkerStatus E cfg workerId (''FAIL: '' @ name entry) g1
                    else g1
                | Some m \<Rightarrow>
                    let sg = scanPackage E cfg entry m workerId g0;
                        ag = heuristicInfo E cfg entry m workerId sg;
                        info = packageInfo E cfg entry m (fst sg) (fst ag);
                        g1 = (snd ag)\<lparr>results := results (snd ag) @ [info]\<rparr>
                    in
                      if verbose cfg
                      then updateWorkerStatus E cfg workerId
                             (''OK: '' @ name entry @ '' -> ''
                                @ template (js_or (fst (compatBounds (fst sg))) (Some ''none''))) g1
                      else g1)
      in g'\<lparr>finished := finished g' + 1\<rparr>)"

section \<open>The worker pool\<close>

text \<open>
  \<^verbatim>\<open>run\<close> starts \<open>workerCount\<close> workers over one queue. A worker is between two
  entries (\<open>Waiting\<close>), inside \<^verbatim>\<open>await processPackage(entry, workerId)\<close>
  (\<open>Processing entry\<close>), or has left its loop (\<open>Finished\<close>). JavaScript runs one
  worker at a time and switches at an \<^verbatim>\<open>await\<close>; which worker continues next depends
  on the order in which the registry answers. A schedule is that order: the list of the
  worker numbers, each continuing its worker by one step. The test of the queue and the
  \<^verbatim>\<open>shift\<close> are one step, since no \<^verbatim>\<open>await\<close> stands between them.

  The second step of an entry runs the whole of \<^verbatim>\<open>processPackage\<close>. In the script the
  status lines and the registry queries of an entry lie between its two steps and
  interleave with those of the other workers; they touch the display and the counter
  \<^verbatim>\<open>versionQueries\<close> only. The row is pushed after the last \<^verbatim>\<open>await\<close> of
  \<^verbatim>\<open>processPackage\<close>, together with the increment of \<^verbatim>\<open>finished\<close>, so the order of the
  rows in \<^verbatim>\<open>results\<close> is the order of these second steps. The script starts its
  workers in the order of their numbers; the schedules here allow any order, which
  includes that one.
\<close>

datatype wstate = Waiting | Processing DepEntry | Finished

record pool =
  queue :: "DepEntry list"
  workers :: "wstate list"
  glob :: globals

definition workerStep :: "env \<Rightarrow> config \<Rightarrow> nat \<Rightarrow> pool \<Rightarrow> pool" where
  "workerStep E cfg workerId p =
     (if workerId \<ge> length (workers p) then p
      else
        case workers p ! workerId of
          Finished \<Rightarrow> p
        | Waiting \<Rightarrow>
            (case queue p of
               [] \<Rightarrow> p\<lparr>workers := (workers p)[workerId := Finished],
                       glob := updateWorkerStatus E cfg workerId ''Finished.'' (glob p)\<rparr>
             | entry # rest \<Rightarrow>
                 p\<lparr>queue := rest, workers := (workers p)[workerId := Processing entry]\<rparr>)
        | Processing entry \<Rightarrow>
            p\<lparr>workers := (workers p)[workerId := Waiting],
              glob := processPackage E cfg entry workerId (glob p)\<rparr>)"

fun runSchedule :: "env \<Rightarrow> config \<Rightarrow> nat list \<Rightarrow> pool \<Rightarrow> pool" where
  "runSchedule E cfg [] p = p"
| "runSchedule E cfg (workerId # schedule) p =
     runSchedule E cfg schedule (workerStep E cfg workerId p)"

text \<open>
  Lines 170 to 181 and 615 to 631: the globals at the start, and the pool before any
  worker has run.
\<close>

definition startGlobals :: "config \<Rightarrow> DepEntry list \<Rightarrow> globals" where
  "startGlobals cfg depEntries =
     (let wc = min (jobs cfg) (length depEntries);
          g = \<lparr>results = [], finished = 0, versionQueries = 0,
               total_count = length depEntries, workerCount = wc,
               workerStatuses = (\<lambda>i. if i < wc then Some ''idle'' else None),
               displayInitialized = False, lastRedrawTime = 0, clockReads = 0,
               stderr = []\<rparr>
      in if showProgress cfg then (redrawScreen cfg g)\<lparr>displayInitialized := True\<rparr> else g)"

definition startPool :: "config \<Rightarrow> DepEntry list \<Rightarrow> pool" where
  "startPool cfg depEntries =
     \<lparr>queue = depEntries,
      workers = replicate (min (jobs cfg) (length depEntries)) Waiting,
      glob = startGlobals cfg depEntries\<rparr>"

text \<open>Lines 663 to 668: the final order of the rows.\<close>

definition compareResults :: "env \<Rightarrow> DepInfo \<Rightarrow> DepInfo \<Rightarrow> int" where
  "compareResults E a b =
     (if isDev a \<noteq> isDev b then (if isDev a then 1 else - 1)
      else localeCompare E (name a) (name b))"

definition sortedResults :: "env \<Rightarrow> DepInfo list \<Rightarrow> DepInfo list" where
  "sortedResults E rs = sort_cmp (compareResults E) rs"

text \<open>
  \<^verbatim>\<open>run\<close> under a schedule: the sorted rows once every worker has finished, which is
  when \<^verbatim>\<open>await Promise.all(workers)\<close> returns; \<open>None\<close> when the schedule ends before.
  The summary line and the CSV lines that the script prints from the sorted rows, one
  line for each row, are not modelled.
\<close>

definition allFinished :: "pool \<Rightarrow> bool" where
  "allFinished p = list_all (\<lambda>w. w = Finished) (workers p)"

definition run :: "env \<Rightarrow> config \<Rightarrow> nat list \<Rightarrow> DepEntry list \<Rightarrow> DepInfo list option" where
  "run E cfg schedule depEntries =
     (let p = runSchedule E cfg schedule (startPool cfg depEntries) in
      if allFinished p then Some (sortedResults E (results (glob p))) else None)"

text \<open>
  Lines 56 to 70: the entries of \<^verbatim>\<open>package.json\<close>, dependencies first; the packages
  of the framework itself are left out.
\<close>

definition depEntries_of :: "(string \<times> string) list \<Rightarrow> (string \<times> string) list \<Rightarrow> DepEntry list" where
  "depEntries_of regularDeps devDeps =
     map (\<lambda>(n, c). \<lparr>name = n, current = c, isDev = False\<rparr>)
       (filter (\<lambda>(n, c). \<not> startsWith n ''@angular/'' \<and> \<not> startsWith n ''@ptp/'') regularDeps)
     @ map (\<lambda>(n, c). \<lparr>name = n, current = c, isDev = True\<rparr>)
         (filter (\<lambda>(n, c). \<not> startsWith n ''@angular/'' \<and> \<not> startsWith n ''@ptp/'') devDeps)"

section \<open>Notions used to state the properties\<close>

text \<open>
  The row that \<^verbatim>\<open>processPackage\<close> pushes for an entry. It is read off a call on
  fresh globals; \<open>processPackage_results\<close> below shows that every call pushes this row,
  whatever the globals, the worker and the display settings are.
\<close>

definition rowOf :: "env \<Rightarrow> config \<Rightarrow> DepEntry \<Rightarrow> DepInfo" where
  "rowOf E cfg entry = last (results (processPackage E cfg entry 0 (startGlobals cfg [])))"

text \<open>
  The classification of one version: it enters \<open>compatVersions\<close> when
  \<^verbatim>\<open>!peer || satisfiesAngular(peer, angularMajor)\<close> holds for its peer range.
\<close>

definition classifiedCompatible :: "env \<Rightarrow> config \<Rightarrow> string \<Rightarrow> string \<Rightarrow> bool" where
  "classifiedCompatible E cfg nm v = peerAllows E cfg (peerOf E nm v)"

text \<open>The first loop alone, from the initial values of the local variables.\<close>

definition firstScan ::
  "env \<Rightarrow> config \<Rightarrow> string \<Rightarrow> nat \<Rightarrow> string \<Rightarrow> string list \<Rightarrow> globals \<Rightarrow> scan \<times> globals" where
  "firstScan E cfg nm workerId currentClean vs g =
     scanLoop E cfg nm workerId currentClean (versionsToCheck cfg vs)
       (\<lparr>peerAngularSeen = None, compatVersions = [], hasAngularPeerDep = False,
         currentVersionFound =
           (fastLimit cfg > 0 \<and> currentClean \<in> set (versionsToCheck cfg vs)),
         versionIndex = 0, probed = []\<rparr>, g)"

text \<open>The entries a pool still holds inside its workers.\<close>

fun inFlight :: "wstate list \<Rightarrow> DepEntry list" where
  "inFlight [] = []"
| "inFlight (Processing entry # ws) = entry # inFlight ws"
| "inFlight (w # ws) = inFlight ws"

text \<open>
  The number of steps a pool has left: two for each queued entry, one for each entry
  inside a worker, and one for each worker to leave its loop.
\<close>

definition stepsLeft :: "pool \<Rightarrow> nat" where
  "stepsLeft p =
     2 * length (queue p) + length (inFlight (workers p))
       + length (filter (\<lambda>w. w \<noteq> Finished) (workers p))"

text \<open>
  Two configurations that differ at most in the display switches, and two worlds that
  differ at most in the clock.
\<close>

definition sameSettings :: "config \<Rightarrow> config \<Rightarrow> bool" where
  "sameSettings cfg cfg' =
     (includePrerelease cfg' = includePrerelease cfg \<and> exhaustive cfg' = exhaustive cfg
      \<and> fastLimit cfg' = fastLimit cfg \<and> jobs cfg' = jobs cfg
      \<and> angularMajor cfg' = angularMajor cfg)"

definition sameWorld :: "env \<Rightarrow> env \<Rightarrow> bool" where
  "sameWorld E E' =
     (npm_view E' = npm_view E
      \<and> npm_view_peerDependencies E' = npm_view_peerDependencies E
      \<and> npm_view_info E' = npm_view_info E
      \<and> semver_valid E' = semver_valid E \<and> semver_prerelease E' = semver_prerelease E
      \<and> semver_rcompare E' = semver_rcompare E \<and> semver_satisfies E' = semver_satisfies E
      \<and> semver_parse E' = semver_parse E \<and> semver_eq E' = semver_eq E
      \<and> semver_gt E' = semver_gt E \<and> localeCompare E' = localeCompare E)"

section \<open>An example registry\<close>

text \<open>
  A small world on which the properties are run: eight version numbers with the order
  of semver, one range that Angular 19 satisfies, and six packages.
  \<^item> \<open>ngx-lib\<close>: 3.0.0 needs Angular 20; 2.0.0 and 1.0.0 need Angular 19.
  \<^item> \<open>ui-kit\<close>: 7.0.0 needs Angular 20; 6.2.0 and 6.0.0 need Angular 19; 4.0.0 needs
    Angular 18.
  \<^item> \<open>mixed\<close>: 3.0.0 needs Angular 20; 2.0.0 needs Angular 19; the query for 1.0.0 fails.
  \<^item> \<open>plain\<close>: 2.0.0 and 1.0.0, no peer dependencies, no keywords.
  \<^item> \<open>opaque\<close>: 1.2.0, no peer dependencies; the query for its keywords fails.
  \<^item> \<open>ghost\<close>: the metadata query fails.
\<close>

definition demoNumbers :: "(string \<times> nat \<times> nat \<times> nat) list" where
  "demoNumbers =
     [(''1.0.0'', 1, 0, 0), (''1.2.0'', 1, 2, 0), (''2.0.0'', 2, 0, 0), (''3.0.0'', 3, 0, 0),
      (''4.0.0'', 4, 0, 0), (''6.0.0'', 6, 0, 0), (''6.2.0'', 6, 2, 0), (''7.0.0'', 7, 0, 0)]"

fun tripleLess :: "nat \<times> nat \<times> nat \<Rightarrow> nat \<times> nat \<times> nat \<Rightarrow> bool" where
  "tripleLess (a, b, c) (d, e, f) = (a < d \<or> (a = d \<and> (b < e \<or> (b = e \<and> c < f))))"

definition demoGt :: "string \<Rightarrow> string \<Rightarrow> bool" where
  "demoGt a b =
     (case (map_of demoNumbers a, map_of demoNumbers b) of
        (Some x, Some y) \<Rightarrow> tripleLess y x
      | _ \<Rightarrow> False)"

definition demoRcompare :: "string \<Rightarrow> string \<Rightarrow> int" where
  "demoRcompare a b = (if demoGt a b then - 1 else if demoGt b a then 1 else 0)"

fun demoLocaleCompare :: "string \<Rightarrow> string \<Rightarrow> int" where
  "demoLocaleCompare [] [] = 0"
| "demoLocaleCompare [] (d # t) = - 1"
| "demoLocaleCompare (c # s) [] = 1"
| "demoLocaleCompare (c # s) (d # t) =
     (if c = d then demoLocaleCompare s t
      else if (of_char c :: nat) < of_char d then - 1 else 1)"

definition demoMeta :: "string \<Rightarrow> meta option" where
  "demoMeta nm =
     map_of
       [(''ngx-lib'', \<lparr>version = Some ''3.0.0'',
           versions = Some [''1.0.0'', ''2.0.0'', ''3.0.0''],
           homepage = Some ''https://example.org/ngx-lib'', repository_url = None\<rparr>),
        (''ui-kit'', \<lparr>version = Some ''7.0.0'',
           versions = Some [''4.0.0'', ''6.0.0'', ''6.2.0'', ''7.0.0''],
           homepage = None, repository_url = None\<rparr>),
        (''mixed'', \<lparr>version = Some ''3.0.0'',
           versions = Some [''1.0.0'', ''2.0.0'', ''3.0.0''],
           homepage = None, repository_url = None\<rparr>),
        (''plain'', \<lparr>version = Some ''2.0.0'',
           versions = Some [''1.0.0'', ''2.0.0''],
           homepage = None, repository_url = None\<rparr>),
        (''opaque'', \<lparr>version = Some ''1.2.0'',
           versions = None,
           homepage = None, repository_url = None\<rparr>)] nm"

definition demoPeerRanges :: "((string \<times> string) \<times> string) list" where
  "demoPeerRanges =
     [((''ngx-lib'', ''3.0.0''), ''^20.0.0''), ((''ngx-lib'', ''2.0.0''), ''^19.0.0''),
      ((''ngx-lib'', ''1.0.0''), ''^19.0.0''),
      ((''ui-kit'', ''7.0.0''), ''^20.0.0''), ((''ui-kit'', ''6.2.0''), ''^19.0.0''),
      ((''ui-kit'', ''6.0.0''), ''^19.0.0''), ((''ui-kit'', ''4.0.0''), ''^18.0.0''),
      ((''mixed'', ''3.0.0''), ''^20.0.0''), ((''mixed'', ''2.0.0''), ''^19.0.0'')]"

definition demoPeers :: "string \<Rightarrow> string \<Rightarrow> (string \<rightharpoonup> string) option" where
  "demoPeers nm v =
     (if nm = ''mixed'' \<and> v = ''1.0.0'' then None
      else Some (case map_of demoPeerRanges (nm, v) of
                   None \<Rightarrow> Map.empty
                 | Some r \<Rightarrow> [''@angular/core'' \<mapsto> r]))"

definition demoEnv :: env where
  "demoEnv =
     \<lparr>npm_view = demoMeta,
      npm_view_peerDependencies = demoPeers,
      npm_view_info =
        (\<lambda>nm. if nm = ''opaque'' then None
              else Some \<lparr>keyword_list = [], description = ''''\<rparr>),
      semver_valid = (\<lambda>v. map_of demoNumbers v \<noteq> None),
      semver_prerelease = (\<lambda>v. False),
      semver_rcompare = demoRcompare,
      semver_satisfies = (\<lambda>v r ip. v = ''19.0.0'' \<and> r = ''^19.0.0''),
      semver_parse = map_of demoNumbers,
      semver_eq = (\<lambda>a b. map_of demoNumbers a \<noteq> None \<and> map_of demoNumbers a = map_of demoNumbers b),
      semver_gt = demoGt,
      localeCompare = demoLocaleCompare,
      date_now = (\<lambda>k. 1000 * int k)\<rparr>"

definition demoConfig :: config where
  "demoConfig =
     \<lparr>includePrerelease = False, showProgress = False, exhaustive = False, verbose = False,
      fastLimit = 2, jobs = 2, angularMajor = 19\<rparr>"

definition demoGlobals :: globals where
  "demoGlobals = startGlobals demoConfig []"

text \<open>Three entries, and a schedule that gives each of two workers eight turns.\<close>

definition demoEntries :: "DepEntry list" where
  "demoEntries =
     [\<lparr>name = ''plain'', current = ''^1.0.0'', isDev = True\<rparr>,
      \<lparr>name = ''ghost'', current = ''1.2.0'', isDev = False\<rparr>,
      \<lparr>name = ''mixed'', current = ''2.0.0'', isDev = False\<rparr>]"

definition demoSchedule :: "nat list" where
  "demoSchedule = [0, 1, 0, 1, 0, 1, 0, 1, 0, 1, 0, 1, 0, 1, 0, 1]"

section \<open>The command line\<close>

text \<open>
  The number of workers is positive. The fast limit is zero exactly when the command line
  has no \<^verbatim>\<open>--fast\<close> flag: \<^verbatim>\<open>Number(parts[1] || 15) || 15\<close> reads \<^verbatim>\<open>--fast=0\<close> as 15.
\<close>

lemma jobs_of_arg_pos: "0 < jobs_of_arg a"
  by (simp add: jobs_of_arg_def split: option.splits)

lemma fastLimit_of_arg_zero: "fastLimit_of_arg a = 0 \<longleftrightarrow> a = None"
  by (simp add: fastLimit_of_arg_def split: option.splits)

lemma fastLimit_of_arg_fast_0: "fastLimit_of_arg (Some (Some 0)) = 15"
  by (simp add: fastLimit_of_arg_def)

section \<open>The display never changes the results\<close>

lemma results_redrawScreen [simp]: "results (redrawScreen cfg g) = results g"
  by (simp add: redrawScreen_def)

lemma results_updateWorkerStatus [simp]: "results (updateWorkerStatus E cfg w st g) = results g"
  by (simp add: updateWorkerStatus_def Let_def)

section \<open>The scanner\<close>

lemma peerAllows_falsy: "\<not> truthy peer \<Longrightarrow> peerAllows E cfg peer"
  by (cases peer) (simp_all add: peerAllows_def truthy_def)

lemma scanVersion_fields:
  "probed (fst (scanVersion E cfg nm w cc v sg)) = probed (fst sg) @ [v]"
  "compatVersions (fst (scanVersion E cfg nm w cc v sg)) =
     compatVersions (fst sg) @ (if classifiedCompatible E cfg nm v then [v] else [])"
  "hasAngularPeerDep (fst (scanVersion E cfg nm w cc v sg)) =
     (hasAngularPeerDep (fst sg) \<or> truthy (peerOf E nm v))"
  "versionIndex (fst (scanVersion E cfg nm w cc v sg)) = versionIndex (fst sg) + 1"
  "currentVersionFound (fst (scanVersion E cfg nm w cc v sg)) =
     (currentVersionFound (fst sg) \<or> v = cc)"
  "results (snd (scanVersion E cfg nm w cc v sg)) = results (snd sg)"
  by (auto simp: scanVersion_def classifiedCompatible_def Let_def)

lemma scanExtended_fields:
  "probed (fst (scanExtended E cfg nm w v sg)) = probed (fst sg) @ [v]"
  "compatVersions (fst (scanExtended E cfg nm w v sg)) =
     compatVersions (fst sg) @ (if classifiedCompatible E cfg nm v then [v] else [])"
  "hasAngularPeerDep (fst (scanExtended E cfg nm w v sg)) = hasAngularPeerDep (fst sg)"
  "versionIndex (fst (scanExtended E cfg nm w v sg)) = versionIndex (fst sg)"
  "currentVersionFound (fst (scanExtended E cfg nm w v sg)) = currentVersionFound (fst sg)"
  "results (snd (scanExtended E cfg nm w v sg)) = results (snd sg)"
  by (simp_all add: scanExtended_def classifiedCompatible_def Let_def)

lemma scanLoop_all:
  "hasAngularPeerDep (fst (scanLoop E cfg nm w cc vs sg)) \<or> exhaustive cfg \<Longrightarrow>
     probed (fst (scanLoop E cfg nm w cc vs sg)) = probed (fst sg) @ vs
     \<and> versionIndex (fst (scanLoop E cfg nm w cc vs sg)) = versionIndex (fst sg) + length vs"
proof (induction vs arbitrary: sg)
  case Nil
  then show ?case by simp
next
  case (Cons v vs)
  then show ?case
    by (auto simp: Let_def scanVersion_fields split: if_splits)
qed

lemma scanLoop_compat:
  "compatVersions (fst sg) = filter (classifiedCompatible E cfg nm) (probed (fst sg)) \<Longrightarrow>
     compatVersions (fst (scanLoop E cfg nm w cc vs sg)) =
       filter (classifiedCompatible E cfg nm) (probed (fst (scanLoop E cfg nm w cc vs sg)))"
proof (induction vs arbitrary: sg)
  case Nil
  then show ?case by simp
next
  case (Cons v vs)
  have step: "compatVersions (fst (scanVersion E cfg nm w cc v sg)) =
      filter (classifiedCompatible E cfg nm) (probed (fst (scanVersion E cfg nm w cc v sg)))"
    using Cons.prems by (simp add: scanVersion_fields)
  show ?case
    using step Cons.IH [OF step] by (simp add: Let_def)
qed

lemma scanLoop_hasPeer:
  "hasAngularPeerDep (fst sg) = (\<exists>v \<in> set (probed (fst sg)). truthy (peerOf E nm v)) \<Longrightarrow>
     hasAngularPeerDep (fst (scanLoop E cfg nm w cc vs sg)) =
       (\<exists>v \<in> set (probed (fst (scanLoop E cfg nm w cc vs sg))). truthy (peerOf E nm v))"
proof (induction vs arbitrary: sg)
  case Nil
  then show ?case by simp
next
  case (Cons v vs)
  have step: "hasAngularPeerDep (fst (scanVersion E cfg nm w cc v sg)) =
      (\<exists>u \<in> set (probed (fst (scanVersion E cfg nm w cc v sg))). truthy (peerOf E nm u))"
    using Cons.prems by (auto simp: scanVersion_fields)
  show ?case
    using step Cons.IH [OF step] by (simp add: Let_def)
qed

lemma scanLoop_subset:
  "set (probed (fst (scanLoop E cfg nm w cc vs sg))) \<subseteq> set (probed (fst sg)) \<union> set vs"
proof (induction vs arbitrary: sg)
  case Nil
  then show ?case by simp
next
  case (Cons v vs)
  show ?case
    using Cons.IH [of "scanVersion E cfg nm w cc v sg"]
    by (auto simp: Let_def scanVersion_fields)
qed

lemma scanLoop_results:
  "results (snd (scanLoop E cfg nm w cc vs sg)) = results (snd sg)"
  by (induction vs arbitrary: sg) (simp_all add: Let_def scanVersion_fields)

lemma scanLoop_early_exit:
  assumes "\<not> exhaustive cfg" "\<not> hasAngularPeerDep (fst sg)" "\<not> truthy (peerOf E nm v)"
  shows "scanLoop E cfg nm w cc (v # vs) sg = scanVersion E cfg nm w cc v sg"
  using assms
  by (simp add: Let_def scanVersion_fields classifiedCompatible_def peerAllows_falsy)

lemma extendLoop_probed:
  "probed (fst (extendLoop E cfg nm w cc vs sg)) =
     probed (fst sg) @ takeWhile (\<lambda>v. v \<noteq> cc) vs @ take 1 (dropWhile (\<lambda>v. v \<noteq> cc) vs)"
  by (induction vs arbitrary: sg) (simp_all add: Let_def scanExtended_fields)

lemma extendLoop_compat:
  "compatVersions (fst sg) = filter (classifiedCompatible E cfg nm) (probed (fst sg)) \<Longrightarrow>
     compatVersions (fst (extendLoop E cfg nm w cc vs sg)) =
       filter (classifiedCompatible E cfg nm) (probed (fst (extendLoop E cfg nm w cc vs sg)))"
proof (induction vs arbitrary: sg)
  case Nil
  then show ?case by simp
next
  case (Cons v vs)
  have step: "compatVersions (fst (scanExtended E cfg nm w v sg)) =
      filter (classifiedCompatible E cfg nm) (probed (fst (scanExtended E cfg nm w v sg)))"
    using Cons.prems by (simp add: scanExtended_fields)
  show ?case
    using step Cons.IH [OF step] by (auto simp: Let_def)
qed

lemma extendLoop_hasPeer:
  "hasAngularPeerDep (fst (extendLoop E cfg nm w cc vs sg)) = hasAngularPeerDep (fst sg)"
  by (induction vs arbitrary: sg) (simp_all add: Let_def scanExtended_fields)

lemma extendLoop_found:
  "currentVersionFound (fst (extendLoop E cfg nm w cc vs sg)) =
     (currentVersionFound (fst sg) \<or> cc \<in> set vs)"
  by (induction vs arbitrary: sg) (auto simp: Let_def scanExtended_fields)

lemma extendLoop_results:
  "results (snd (extendLoop E cfg nm w cc vs sg)) = results (snd sg)"
  by (induction vs arbitrary: sg) (simp_all add: Let_def scanExtended_fields)


lemma scanLoop_hasPeer_mono:
  "hasAngularPeerDep (fst sg) \<Longrightarrow> hasAngularPeerDep (fst (scanLoop E cfg nm w cc vs sg))"
  by (induction vs arbitrary: sg) (simp_all add: Let_def scanVersion_fields)

lemma scanLoop_found:
  "currentVersionFound (fst (scanLoop E cfg nm w cc vs sg)) \<Longrightarrow>
     currentVersionFound (fst sg) \<or> cc \<in> set vs"
proof (induction vs arbitrary: sg)
  case Nil
  then show ?case by simp
next
  case (Cons v vs)
  let ?sg' = "scanVersion E cfg nm w cc v sg"
  show ?case
  proof (cases "\<not> exhaustive cfg \<and> \<not> hasAngularPeerDep (fst ?sg') \<and> compatVersions (fst ?sg') \<noteq> []")
    case True
    then have "scanLoop E cfg nm w cc (v # vs) sg = ?sg'"
      by (simp add: Let_def)
    with Cons.prems have "currentVersionFound (fst ?sg')"
      by simp
    then show ?thesis
      by (auto simp: scanVersion_fields)
  next
    case False
    then have "scanLoop E cfg nm w cc (v # vs) sg = scanLoop E cfg nm w cc vs ?sg'"
      by (auto simp: Let_def)
    with Cons.prems have "currentVersionFound (fst (scanLoop E cfg nm w cc vs ?sg'))"
      by simp
    then have "currentVersionFound (fst ?sg') \<or> cc \<in> set vs"
      by (rule Cons.IH)
    then show ?thesis
      by (auto simp: scanVersion_fields)
  qed
qed

lemma take1_dropWhile:
  "take (Suc 0) (dropWhile (\<lambda>v. v \<noteq> c) xs) = (if c \<in> set xs then [c] else [])"
  by (induction xs) auto

lemma scanVersions_firstScan:
  "scanVersions E cfg nm w cc vs g =
     (let sg1 = firstScan E cfg nm w cc vs g in
      if hasAngularPeerDep (fst sg1) \<and> \<not> currentVersionFound (fst sg1) \<and> fastLimit cfg > 0
         \<and> versionIndex (fst sg1) < length vs
      then extendLoop E cfg nm w cc (drop (versionIndex (fst sg1)) vs)
             (fst sg1,
              updateWorkerStatus E cfg w
                (''extending search for '' @ nm @ '' to find current version'') (snd sg1))
      else sg1)"
  by (simp add: scanVersions_def firstScan_def Let_def)

lemma firstScan_compat:
  "compatVersions (fst (firstScan E cfg nm w cc vs g)) =
     filter (classifiedCompatible E cfg nm) (probed (fst (firstScan E cfg nm w cc vs g)))"
  unfolding firstScan_def by (rule scanLoop_compat) simp

lemma firstScan_hasPeer:
  "hasAngularPeerDep (fst (firstScan E cfg nm w cc vs g)) =
     (\<exists>v \<in> set (probed (fst (firstScan E cfg nm w cc vs g))). truthy (peerOf E nm v))"
  unfolding firstScan_def by (rule scanLoop_hasPeer) simp

lemma firstScan_all:
  assumes "hasAngularPeerDep (fst (firstScan E cfg nm w cc vs g)) \<or> exhaustive cfg"
  shows "probed (fst (firstScan E cfg nm w cc vs g)) = versionsToCheck cfg vs"
    and "versionIndex (fst (firstScan E cfg nm w cc vs g)) = length (versionsToCheck cfg vs)"
  using scanLoop_all [OF assms [unfolded firstScan_def]] by (simp_all add: firstScan_def)

lemma firstScan_subset:
  "set (probed (fst (firstScan E cfg nm w cc vs g))) \<subseteq> set (versionsToCheck cfg vs)"
  using scanLoop_subset [of E cfg nm w cc "versionsToCheck cfg vs"]
  by (fastforce simp: firstScan_def)

lemma firstScan_found:
  "currentVersionFound (fst (firstScan E cfg nm w cc vs g)) \<Longrightarrow> cc \<in> set (versionsToCheck cfg vs)"
  unfolding firstScan_def by (drule scanLoop_found) auto

lemma firstScan_no_peer:
  assumes "\<not> exhaustive cfg" "versionsToCheck cfg vs = v # rest" "\<not> truthy (peerOf E nm v)"
  shows "probed (fst (firstScan E cfg nm w cc vs g)) = [v]"
    and "\<not> hasAngularPeerDep (fst (firstScan E cfg nm w cc vs g))"
proof -
  let ?s0 = "(\<lparr>peerAngularSeen = None, compatVersions = [], hasAngularPeerDep = False,
         currentVersionFound =
           (fastLimit cfg > 0 \<and> cc \<in> set (versionsToCheck cfg vs)),
         versionIndex = 0, probed = []\<rparr>, g)"
  have "scanLoop E cfg nm w cc (v # rest) ?s0 = scanVersion E cfg nm w cc v ?s0"
    by (rule scanLoop_early_exit) (use assms in simp_all)
  then have eq: "firstScan E cfg nm w cc vs g = scanVersion E cfg nm w cc v ?s0"
    by (simp only: firstScan_def assms(2))
  show "probed (fst (firstScan E cfg nm w cc vs g)) = [v]"
    by (simp only: eq scanVersion_fields) simp
  show "\<not> hasAngularPeerDep (fst (firstScan E cfg nm w cc vs g))"
    using assms(3) by (simp only: eq scanVersion_fields) simp
qed

lemma firstScan_peer:
  assumes "versionsToCheck cfg vs = v # rest" "truthy (peerOf E nm v)"
  shows "hasAngularPeerDep (fst (firstScan E cfg nm w cc vs g))"
  using assms
  by (simp add: firstScan_def Let_def scanVersion_fields scanLoop_hasPeer_mono)

lemma scanVersions_hasPeer:
  "hasAngularPeerDep (fst (scanVersions E cfg nm w cc vs g)) =
     hasAngularPeerDep (fst (firstScan E cfg nm w cc vs g))"
  by (simp add: scanVersions_firstScan Let_def extendLoop_hasPeer)

lemma scanVersions_compat:
  "compatVersions (fst (scanVersions E cfg nm w cc vs g)) =
     filter (classifiedCompatible E cfg nm) (probed (fst (scanVersions E cfg nm w cc vs g)))"
  by (simp add: scanVersions_firstScan Let_def firstScan_compat extendLoop_compat)

lemma scanVersions_probed:
  "probed (fst (scanVersions E cfg nm w cc vs g)) =
     (let s1 = fst (firstScan E cfg nm w cc vs g) in
      if hasAngularPeerDep s1 \<and> \<not> currentVersionFound s1 \<and> fastLimit cfg > 0
         \<and> versionIndex s1 < length vs
      then probed s1 @ takeWhile (\<lambda>v. v \<noteq> cc) (drop (versionIndex s1) vs)
             @ (if cc \<in> set (drop (versionIndex s1) vs) then [cc] else [])
      else probed s1)"
  by (simp add: scanVersions_firstScan Let_def extendLoop_probed take1_dropWhile)

lemma versionsToCheck_subset: "set (versionsToCheck cfg vs) \<subseteq> set vs"
  by (auto simp: versionsToCheck_def dest: in_set_takeD)

lemma scanVersions_subset:
  "set (probed (fst (scanVersions E cfg nm w cc vs g))) \<subseteq> set vs"
proof -
  have a: "set (probed (fst (firstScan E cfg nm w cc vs g))) \<subseteq> set vs"
    using firstScan_subset versionsToCheck_subset by blast
  have b: "set (takeWhile (\<lambda>v. v \<noteq> cc) (drop k vs)) \<subseteq> set vs" for k
    by (meson set_takeWhileD in_set_dropD subsetI)
  have c: "cc \<in> set (drop k vs) \<Longrightarrow> cc \<in> set vs" for k
    by (rule in_set_dropD)
  show ?thesis
    using a b c by (auto simp: scanVersions_probed Let_def)
qed

lemma scanVersions_results:
  "results (snd (scanVersions E cfg nm w cc vs g)) = results g"
  by (simp add: scanVersions_def Let_def extendLoop_results scanLoop_results)

text \<open>
  Claim C2 (extension rule). Let the fast limit be positive, let the first loop have probed
  at least one version that declares an Angular peer range, and let the current version
  not be among the versions it probed. Then the first loop has probed exactly the first
  \<open>fastLimit\<close> versions, and the whole scan has probed these, followed by the versions
  after them up to and including the current version, or all of them when the current
  version is not in the list. In the example registry (fast limit 2, versions 3.0.0,
  2.0.0, 1.0.0, current 1.0.0) the scan probes all three versions.
\<close>
theorem extension_rule:
  assumes "0 < fastLimit cfg"
    and "s1 = fst (firstScan E cfg nm w cc vs g)"
    and "\<exists>v \<in> set (probed s1). truthy (peerOf E nm v)"
    and "cc \<notin> set (probed s1)"
  shows "probed s1 = take (nat (fastLimit cfg)) vs
     \<and> probed (fst (scanVersions E cfg nm w cc vs g)) =
         take (nat (fastLimit cfg)) vs
           @ takeWhile (\<lambda>v. v \<noteq> cc) (drop (nat (fastLimit cfg)) vs)
           @ (if cc \<in> set (drop (nat (fastLimit cfg)) vs) then [cc] else [])"
proof -
  have hp: "hasAngularPeerDep s1"
    using assms(2,3) firstScan_hasPeer by simp
  have vtc: "versionsToCheck cfg vs = take (nat (fastLimit cfg)) vs"
    using assms(1) by (simp add: versionsToCheck_def)
  have p1: "probed s1 = take (nat (fastLimit cfg)) vs"
    using hp assms(2) firstScan_all(1) vtc by metis
  have ix: "versionIndex s1 = length (take (nat (fastLimit cfg)) vs)"
    using hp assms(2) firstScan_all(2) vtc by metis
  have nf: "\<not> currentVersionFound s1"
    using assms(2,4) p1 vtc firstScan_found by metis
  show ?thesis
  proof (cases "versionIndex s1 < length vs")
    case True
    then have "versionIndex s1 = nat (fastLimit cfg)"
      using ix by simp
    then show ?thesis
      using True hp nf assms(1,2) p1 by (simp add: scanVersions_probed Let_def)
  next
    case False
    then have "drop (nat (fastLimit cfg)) vs = []"
      using ix by simp
    then show ?thesis
      using False assms(2) p1 by (simp add: scanVersions_probed Let_def)
  qed
qed


lemma scanVersions_no_peer:
  assumes "\<not> exhaustive cfg" "versionsToCheck cfg vs = v # rest" "\<not> truthy (peerOf E nm v)"
  shows "probed (fst (scanVersions E cfg nm w cc vs g)) = [v]"
  using firstScan_no_peer [OF assms] by (simp add: scanVersions_probed Let_def)

lemma scanVersions_peer_first:
  assumes "versionsToCheck cfg vs = v # rest" "truthy (peerOf E nm v)"
  shows "\<exists>ps. probed (fst (scanVersions E cfg nm w cc vs g)) = v # ps"
proof -
  have hp: "hasAngularPeerDep (fst (firstScan E cfg nm w cc vs g))"
    using assms by (rule firstScan_peer)
  then have "probed (fst (firstScan E cfg nm w cc vs g)) = v # rest"
    using firstScan_all(1) assms(1) by metis
  then show ?thesis
    by (simp add: scanVersions_probed Let_def)
qed

lemma scanVersions_empty:
  assumes "versionsToCheck cfg vs = []"
  shows "probed (fst (scanVersions E cfg nm w cc vs g)) = []"
proof -
  have "firstScan E cfg nm w cc vs g =
      (\<lparr>peerAngularSeen = None, compatVersions = [], hasAngularPeerDep = False,
        currentVersionFound = False, versionIndex = 0, probed = []\<rparr>, g)"
    using assms by (simp add: firstScan_def)
  then show ?thesis
    by (simp add: scanVersions_probed Let_def)
qed

text \<open>
  Claim C3 (early exit). In a scan that is not exhaustive: when, after \<open>k\<close> probes, no
  probed version has declared an Angular peer range and one of them is classified
  compatible, the scan has stopped there, so it has probed \<open>k\<close> versions in all. With
  fast limit 1, a scan whose newest version declares no peer range probes exactly that
  version.
\<close>
theorem early_exit_rule:
  assumes "\<not> exhaustive cfg"
    and "sc = fst (scanVersions E cfg nm w cc vs g)"
  shows "(\<forall>k. 0 < k \<and> k \<le> length (probed sc)
            \<and> (\<forall>v \<in> set (take k (probed sc)). \<not> truthy (peerOf E nm v))
            \<and> (\<exists>v \<in> set (take k (probed sc)). classifiedCompatible E cfg nm v)
          \<longrightarrow> length (probed sc) = k)
     \<and> (fastLimit cfg = 1 \<and> vs \<noteq> [] \<and> \<not> truthy (peerOf E nm (hd vs)) \<longrightarrow> probed sc = [hd vs])"
proof (intro conjI allI impI)
  fix k
  assume k: "0 < k \<and> k \<le> length (probed sc)
            \<and> (\<forall>v \<in> set (take k (probed sc)). \<not> truthy (peerOf E nm v))
            \<and> (\<exists>v \<in> set (take k (probed sc)). classifiedCompatible E cfg nm v)"
  show "length (probed sc) = k"
  proof (cases "versionsToCheck cfg vs")
    case Nil
    then show ?thesis
      using k assms(2) scanVersions_empty by simp
  next
    case (Cons v rest)
    show ?thesis
    proof (cases "truthy (peerOf E nm v)")
      case True
      then obtain ps where "probed sc = v # ps"
        using scanVersions_peer_first [OF Cons True] assms(2) by blast
      then have "v \<in> set (take k (probed sc))"
        using k by (cases k) simp_all
      then show ?thesis
        using k True by blast
    next
      case False
      then have "probed sc = [v]"
        using scanVersions_no_peer [OF assms(1) Cons False] assms(2) by simp
      then show ?thesis
        using k by simp
    qed
  qed
next
  assume a: "fastLimit cfg = 1 \<and> vs \<noteq> [] \<and> \<not> truthy (peerOf E nm (hd vs))"
  then have "versionsToCheck cfg vs = hd vs # []"
    by (cases vs) (simp_all add: versionsToCheck_def)
  then show "probed sc = [hd vs]"
    using scanVersions_no_peer [OF assms(1) _ conjunct2 [OF conjunct2 [OF a]]] assms(2) by simp
qed

text \<open>
  Claim C4 (formal classification). A probed version that declares the Angular peer range
  \<open>r\<close> is in \<open>compatVersions\<close> exactly when \<^verbatim>\<open>semver.satisfies\<close> accepts the version
  \<^verbatim>\<open><angularMajor>.0.0\<close> for \<open>r\<close>, called with the \<open>includePrerelease\<close> flag of the
  command line. A declared range is a non-empty string: the script tests \<^verbatim>\<open>if (peer)\<close>,
  and the empty string is falsy.
\<close>
theorem formal_classification:
  assumes "sc = fst (scanVersions E cfg nm w cc vs g)"
    and "v \<in> set (probed sc)"
    and "peerOf E nm v = Some r" and "r \<noteq> []"
  shows "v \<in> set (compatVersions sc) \<longleftrightarrow>
     semver_satisfies E (string_of_nat (angularMajor cfg) @ ''.0.0'') r (includePrerelease cfg)"
  using assms
  by (simp add: scanVersions_compat classifiedCompatible_def peerAllows_def satisfiesAngular_def)

lemma hd_filter_hd: "xs \<noteq> [] \<Longrightarrow> P (hd xs) \<Longrightarrow> hd (filter P xs) = hd xs"
  by (cases xs) simp_all

lemma last_filter_last: "xs \<noteq> [] \<Longrightarrow> P (last xs) \<Longrightarrow> last (filter P xs) = last xs"
  by (induction xs rule: rev_induct) simp_all

lemma peerOf_failed: "npm_view_peerDependencies E nm v = None \<Longrightarrow> \<not> truthy (peerOf E nm v)"
  by (simp add: peerOf_def js_or_def truthy_def)

text \<open>
  Claim C10. A probed version whose peer query failed, or that declares no Angular peer
  range, is in \<open>compatVersions\<close>, whatever the other versions declare. When it is the
  first probed version it is \<^verbatim>\<open>latestCompat\<close>; when it is the last probed version of a
  package with an Angular peer dependency it is \<^verbatim>\<open>earliestCompat\<close>.
\<close>
theorem no_peer_is_compatible:
  assumes "sc = fst (scanVersions E cfg nm w cc vs g)"
    and "v \<in> set (probed sc)"
    and "npm_view_peerDependencies E nm v = None \<or> \<not> truthy (peerOf E nm v)"
  shows "v \<in> set (compatVersions sc)
     \<and> (v = hd (probed sc) \<longrightarrow> fst (compatBounds sc) = Some v)
     \<and> (hasAngularPeerDep sc \<and> v = last (probed sc) \<longrightarrow> snd (compatBounds sc) = Some v)"
proof -
  have np: "\<not> truthy (peerOf E nm v)"
    using assms(3) peerOf_failed by blast
  then have c: "classifiedCompatible E cfg nm v"
    by (simp add: classifiedCompatible_def peerAllows_falsy)
  have cv: "compatVersions sc = filter (classifiedCompatible E cfg nm) (probed sc)"
    using assms(1) scanVersions_compat by simp
  have mem: "v \<in> set (compatVersions sc)"
    using cv c assms(2) by simp
  have ne: "probed sc \<noteq> []" "compatVersions sc \<noteq> []"
    using assms(2) mem by auto
  have h: "v = hd (probed sc) \<Longrightarrow> hd (compatVersions sc) = v"
    using cv c ne(1) hd_filter_hd by metis
  have l: "v = last (probed sc) \<Longrightarrow> last (compatVersions sc) = v"
    using cv c ne(1) last_filter_last by metis
  show ?thesis
    using mem ne(2) h l by (simp add: compatBounds_def)
qed

text \<open>
  Claim C8. With \<open>fastLimit = 0\<close> the first loop walks over the whole version list, not
  over a prefix of it: the scan probes every version when it is exhaustive or meets an
  Angular peer dependency, and otherwise stops by the early exit after the newest
  version. (On the command line \<^verbatim>\<open>--fast=0\<close> does not give this value, see
  \<open>fastLimit_of_arg\<close>: the script reads it as 15. The value 0 is the one of a command
  line without \<^verbatim>\<open>--fast\<close>.)
\<close>
theorem fast_limit_zero:
  assumes "fastLimit cfg = 0"
    and "sc = fst (scanVersions E cfg nm w cc vs g)"
  shows "versionsToCheck cfg vs = vs
     \<and> probed sc = (if exhaustive cfg \<or> hasAngularPeerDep sc then vs else take 1 vs)"
proof -
  have vtc: "versionsToCheck cfg vs = vs"
    using assms(1) by (simp add: versionsToCheck_def)
  have p: "probed sc = probed (fst (firstScan E cfg nm w cc vs g))"
    using assms by (simp add: scanVersions_probed Let_def)
  have hp: "hasAngularPeerDep sc = hasAngularPeerDep (fst (firstScan E cfg nm w cc vs g))"
    using assms(2) scanVersions_hasPeer by simp
  show ?thesis
  proof (cases "exhaustive cfg \<or> hasAngularPeerDep sc")
    case True
    then have "probed (fst (firstScan E cfg nm w cc vs g)) = versionsToCheck cfg vs"
      using hp firstScan_all(1) by metis
    then show ?thesis
      using True vtc p by simp
  next
    case False
    show ?thesis
    proof (cases vs)
      case Nil
      then show ?thesis
        using False vtc assms(2) scanVersions_empty by simp
    next
      case (Cons v rest)
      then have c: "versionsToCheck cfg vs = v # rest"
        using vtc by simp
      have "\<not> truthy (peerOf E nm v)"
        using False hp firstScan_peer [OF c] by blast
      then have "probed sc = [v]"
        using scanVersions_no_peer [OF _ c] False assms(2) by simp
      then show ?thesis
        using False vtc Cons by simp
    qed
  qed
qed


section \<open>Rows do not depend on the display\<close>

lemma sameSettings_refl: "sameSettings cfg cfg"
  by (simp add: sameSettings_def)

lemma sameWorld_refl: "sameWorld E E"
  by (simp add: sameWorld_def)

lemma peerOf_rel: "sameWorld E E' \<Longrightarrow> peerOf E' nm v = peerOf E nm v"
  by (simp add: peerOf_def sameWorld_def)

lemma peerAllows_rel:
  "sameSettings cfg cfg' \<Longrightarrow> sameWorld E E' \<Longrightarrow> peerAllows E' cfg' p = peerAllows E cfg p"
  by (cases p) (simp_all add: peerAllows_def satisfiesAngular_def sameSettings_def sameWorld_def)

lemma scanVersion_rel:
  assumes "sameSettings cfg cfg'" "sameWorld E E'" "fst sg' = fst sg"
  shows "fst (scanVersion E' cfg' nm w' cc v sg') = fst (scanVersion E cfg nm w cc v sg)"
  using assms(3)
  by (simp add: scanVersion_def Let_def peerOf_rel [OF assms(2)] peerAllows_rel [OF assms(1,2)])

lemma scanLoop_rel:
  assumes "sameSettings cfg cfg'" "sameWorld E E'"
  shows "fst sg' = fst sg \<Longrightarrow>
    fst (scanLoop E' cfg' nm w' cc vs sg') = fst (scanLoop E cfg nm w cc vs sg)"
proof (induction vs arbitrary: sg sg')
  case Nil
  then show ?case by simp
next
  case (Cons v vs)
  have step: "fst (scanVersion E' cfg' nm w' cc v sg') = fst (scanVersion E cfg nm w cc v sg)"
    using assms Cons.prems by (rule scanVersion_rel)
  have ex: "exhaustive cfg' = exhaustive cfg"
    using assms(1) by (simp add: sameSettings_def)
  show ?case
    using step ex Cons.IH [OF step] by (simp add: Let_def)
qed

lemma scanExtended_rel:
  assumes "sameSettings cfg cfg'" "sameWorld E E'" "fst sg' = fst sg"
  shows "fst (scanExtended E' cfg' nm w' v sg') = fst (scanExtended E cfg nm w v sg)"
  using assms(3)
  by (simp add: scanExtended_def Let_def peerOf_rel [OF assms(2)] peerAllows_rel [OF assms(1,2)])

lemma extendLoop_rel:
  assumes "sameSettings cfg cfg'" "sameWorld E E'"
  shows "fst sg' = fst sg \<Longrightarrow>
    fst (extendLoop E' cfg' nm w' cc vs sg') = fst (extendLoop E cfg nm w cc vs sg)"
proof (induction vs arbitrary: sg sg')
  case Nil
  then show ?case by simp
next
  case (Cons v vs)
  have step: "fst (scanExtended E' cfg' nm w' v sg') = fst (scanExtended E cfg nm w v sg)"
    using assms Cons.prems by (rule scanExtended_rel)
  show ?case
    using step Cons.IH [OF step] by (cases "v = cc") (simp_all add: Let_def)
qed

lemma versionsToCheck_rel:
  "sameSettings cfg cfg' \<Longrightarrow> versionsToCheck cfg' vs = versionsToCheck cfg vs"
  by (simp add: versionsToCheck_def sameSettings_def)

lemma scanVersions_rel:
  assumes "sameSettings cfg cfg'" "sameWorld E E'"
  shows "fst (scanVersions E' cfg' nm w' cc vs g') = fst (scanVersions E cfg nm w cc vs g)"
proof -
  have fl: "fastLimit cfg' = fastLimit cfg"
    using assms(1) by (simp add: sameSettings_def)
  have first: "fst (firstScan E' cfg' nm w' cc vs g') = fst (firstScan E cfg nm w cc vs g)"
    unfolding firstScan_def versionsToCheck_rel [OF assms(1)] fl
    by (rule scanLoop_rel [OF assms]) simp
  let ?s = "fst (firstScan E cfg nm w cc vs g)"
  show ?thesis
  proof (cases "hasAngularPeerDep ?s \<and> \<not> currentVersionFound ?s \<and> fastLimit cfg > 0
         \<and> versionIndex ?s < length vs")
    case True
    have "fst (scanVersions E' cfg' nm w' cc vs g') =
        fst (extendLoop E' cfg' nm w' cc (drop (versionIndex ?s) vs)
          (fst (firstScan E' cfg' nm w' cc vs g'),
           updateWorkerStatus E' cfg' w'
             (''extending search for '' @ nm @ '' to find current version'')
             (snd (firstScan E' cfg' nm w' cc vs g'))))"
      using True first fl by (simp add: scanVersions_firstScan Let_def)
    also have "\<dots> =
        fst (extendLoop E cfg nm w cc (drop (versionIndex ?s) vs)
          (?s,
           updateWorkerStatus E cfg w
             (''extending search for '' @ nm @ '' to find current version'')
             (snd (firstScan E cfg nm w cc vs g))))"
      by (rule extendLoop_rel [OF assms]) (simp add: first)
    also have "\<dots> = fst (scanVersions E cfg nm w cc vs g)"
      using True by (simp add: scanVersions_firstScan Let_def)
    finally show ?thesis .
  next
    case False
    have "fst (scanVersions E' cfg' nm w' cc vs g') = fst (firstScan E' cfg' nm w' cc vs g')"
      using False first fl by (auto simp: scanVersions_firstScan Let_def)
    moreover have "fst (scanVersions E cfg nm w cc vs g) = ?s"
      using False by (auto simp: scanVersions_firstScan Let_def)
    ultimately show ?thesis
      using first by simp
  qed
qed

lemma listVersions_rel:
  assumes "sameSettings cfg cfg'" "sameWorld E E'"
  shows "listVersions E' cfg' m = listVersions E cfg m"
proof -
  have a: "semver_valid E' = semver_valid E" "semver_prerelease E' = semver_prerelease E"
    "semver_rcompare E' = semver_rcompare E"
    using assms(2) by (simp_all add: sameWorld_def)
  have b: "includePrerelease cfg' = includePrerelease cfg"
    using assms(1) by (simp add: sameSettings_def)
  show ?thesis
    unfolding listVersions_def a b ..
qed

lemma scanPackage_rel:
  assumes "sameSettings cfg cfg'" "sameWorld E E'"
  shows "fst (scanPackage E' cfg' entry m w' g') = fst (scanPackage E cfg entry m w g)"
  unfolding scanPackage_def listVersions_rel [OF assms]
  by (rule scanVersions_rel [OF assms])

lemma scanPackage_results: "results (snd (scanPackage E cfg entry m w g)) = results g"
  by (simp add: scanPackage_def scanVersions_results)

lemma checkAngularCompatibility_rel:
  assumes "sameWorld E E'"
  shows "fst (checkAngularCompatibility E' cfg' nm l vs w' g')
       = fst (checkAngularCompatibility E cfg nm l vs w g)"
proof -
  have a: "npm_view_info E' = npm_view_info E" "semver_parse E' = semver_parse E"
    using assms by (simp_all add: sameWorld_def)
  show ?thesis
    unfolding checkAngularCompatibility_def a
    by (auto simp: Let_def split: option.splits)
qed

lemma checkAngularCompatibility_results:
  "results (snd (checkAngularCompatibility E cfg nm l vs w g)) = results g"
  by (simp add: checkAngularCompatibility_def Let_def split: option.splits)

lemma heuristicInfo_rel:
  assumes "sameSettings cfg cfg'" "sameWorld E E'" "fst sg' = fst sg"
  shows "fst (heuristicInfo E' cfg' entry m w' sg') = fst (heuristicInfo E cfg entry m w sg)"
  using assms(3) checkAngularCompatibility_rel [OF assms(2)]
  by (simp add: heuristicInfo_def listVersions_rel [OF assms(1,2)])

lemma heuristicInfo_results:
  "results (snd (heuristicInfo E cfg entry m w sg)) = results (snd sg)"
  by (simp add: heuristicInfo_def checkAngularCompatibility_results)

lemma versionDistance_rel:
  assumes "sameWorld E E'"
  shows "versionDistance E' b c base = versionDistance E b c base"
proof -
  have a: "semver_parse E' = semver_parse E" "semver_eq E' = semver_eq E"
    "semver_gt E' = semver_gt E"
    using assms by (simp_all add: sameWorld_def)
  show ?thesis
    unfolding versionDistance_def a ..
qed

lemma versionsBehindDisplay_rel:
  "sameWorld E E' \<Longrightarrow> versionsBehindDisplay E' s c l = versionsBehindDisplay E s c l"
  by (simp only: versionsBehindDisplay_def versionDistance_rel)

lemma displayValues_rel:
  assumes "sameSettings cfg cfg'"
  shows "displayValues cfg' s c l info = displayValues cfg s c l info"
proof -
  have "angularMajor cfg' = angularMajor cfg"
    using assms by (simp add: sameSettings_def)
  then show ?thesis
    by (simp only: displayValues_def)
qed

lemma packageInfo_rel:
  assumes "sameSettings cfg cfg'" "sameWorld E E'"
  shows "packageInfo E' cfg' entry m s info = packageInfo E cfg entry m s info"
  by (simp only: packageInfo_def displayValues_rel [OF assms(1)]
      versionsBehindDisplay_rel [OF assms(2)])

text \<open>The row of an entry, written out.\<close>

lemma processPackage_row:
  "results (processPackage E cfg entry w g) = results g @
     [case npm_view E (name entry) of
        None \<Rightarrow> failureInfo entry
      | Some m \<Rightarrow>
          packageInfo E cfg entry m (fst (scanPackage E cfg entry m w' g'))
            (fst (heuristicInfo E cfg entry m w' (scanPackage E cfg entry m w' g')))]"
proof (cases "npm_view E (name entry)")
  case None
  then show ?thesis
    by (simp add: processPackage_def Let_def)
next
  case (Some m)
  have s: "fst (scanPackage E cfg entry m w g1) = fst (scanPackage E cfg entry m w' g')" for g1
    by (rule scanPackage_rel [OF sameSettings_refl sameWorld_refl])
  have h: "fst (heuristicInfo E cfg entry m w (scanPackage E cfg entry m w g1))
         = fst (heuristicInfo E cfg entry m w' (scanPackage E cfg entry m w' g'))" for g1
    by (rule heuristicInfo_rel [OF sameSettings_refl sameWorld_refl s])
  show ?thesis
    using Some
    by (simp add: processPackage_def Let_def s h heuristicInfo_results scanPackage_results)
qed

lemma processPackage_results:
  "results (processPackage E cfg entry w g) = results g @ [rowOf E cfg entry]"
proof -
  have "rowOf E cfg entry =
     (case npm_view E (name entry) of
        None \<Rightarrow> failureInfo entry
      | Some m \<Rightarrow>
          packageInfo E cfg entry m (fst (scanPackage E cfg entry m w g))
            (fst (heuristicInfo E cfg entry m w (scanPackage E cfg entry m w g))))"
    unfolding rowOf_def by (subst processPackage_row [where w' = w and g' = g]) simp
  then show ?thesis
    by (subst processPackage_row [where w' = w and g' = g]) simp
qed

lemma rowOf_failure: "npm_view E (name entry) = None \<Longrightarrow> rowOf E cfg entry = failureInfo entry"
  unfolding rowOf_def by (subst processPackage_row [where w' = 0 and g' = g]) simp

lemma rowOf_meta:
  "npm_view E (name entry) = Some m \<Longrightarrow>
     rowOf E cfg entry =
       packageInfo E cfg entry m (fst (scanPackage E cfg entry m w g))
         (fst (heuristicInfo E cfg entry m w (scanPackage E cfg entry m w g)))"
  unfolding rowOf_def by (subst processPackage_row [where w' = w and g' = g]) simp

lemma rowOf_rel:
  assumes "sameSettings cfg cfg'" "sameWorld E E'"
  shows "rowOf E' cfg' entry = rowOf E cfg entry"
proof (cases "npm_view E (name entry)")
  case None
  then have "npm_view E' (name entry) = None"
    using assms(2) by (simp add: sameWorld_def)
  then show ?thesis
    using None by (simp add: rowOf_failure)
next
  case (Some m)
  then have m': "npm_view E' (name entry) = Some m"
    using assms(2) by (simp add: sameWorld_def)
  have s: "fst (scanPackage E' cfg' entry m 0 g) = fst (scanPackage E cfg entry m 0 g)" for g
    by (rule scanPackage_rel [OF assms])
  have h: "fst (heuristicInfo E' cfg' entry m 0 (scanPackage E' cfg' entry m 0 g))
         = fst (heuristicInfo E cfg entry m 0 (scanPackage E cfg entry m 0 g))" for g
    by (rule heuristicInfo_rel [OF assms s])
  show ?thesis
    unfolding rowOf_meta [OF Some, of cfg 0 "startGlobals cfg []"]
      rowOf_meta [OF m', of cfg' 0 "startGlobals cfg []"]
    by (simp only: s h packageInfo_rel [OF assms])
qed

lemma rowOf_name: "name (rowOf E cfg entry) = name entry"
  by (cases "npm_view E (name entry)")
    (simp_all add: rowOf_failure failureInfo_def rowOf_meta [where w = 0 and g = undefined]
      packageInfo_def Let_def)


section \<open>The scanner on the example registry\<close>

lemma string_of_nat_small: "n < 10 \<Longrightarrow> string_of_nat n = [digit_char n]"
  by (subst string_of_nat.simps) simp

lemma string_of_nat_big:
  "10 \<le> n \<Longrightarrow> string_of_nat n = string_of_nat (n div 10) @ [digit_char (n mod 10)]"
  by (subst string_of_nat.simps) simp

lemma string_of_nat_19: "string_of_nat 19 = ''19''"
  by (simp add: string_of_nat_small string_of_nat_big digit_char_def)

lemmas demo_scan =
  firstScan_def scanVersions_def versionsToCheck_def demoConfig_def demoEnv_def
  scanVersion_def scanExtended_def peerOf_def demoPeers_def demoPeerRanges_def
  peerAllows_def satisfiesAngular_def js_or_def truthy_def updateWorkerStatus_def Let_def
  classifiedCompatible_def compatBounds_def string_of_nat_19

theorem extension_rule_witness:
  "0 < fastLimit demoConfig
   \<and> probed (fst (firstScan demoEnv demoConfig ''ngx-lib'' 0 ''1.0.0''
        [''3.0.0'', ''2.0.0'', ''1.0.0''] demoGlobals)) = [''3.0.0'', ''2.0.0'']
   \<and> truthy (peerOf demoEnv ''ngx-lib'' ''3.0.0'')
   \<and> probed (fst (scanVersions demoEnv demoConfig ''ngx-lib'' 0 ''1.0.0''
        [''3.0.0'', ''2.0.0'', ''1.0.0''] demoGlobals)) = [''3.0.0'', ''2.0.0'', ''1.0.0'']"
proof -
  let ?s1 = "fst (firstScan demoEnv demoConfig ''ngx-lib'' 0 ''1.0.0''
        [''3.0.0'', ''2.0.0'', ''1.0.0''] demoGlobals)"
  have lim: "0 < fastLimit demoConfig"
    by (simp add: demoConfig_def)
  have p1: "probed ?s1 = [''3.0.0'', ''2.0.0'']"
    by (simp add: demo_scan)
  have peer: "truthy (peerOf demoEnv ''ngx-lib'' ''3.0.0'')"
    by (simp add: demo_scan)
  have ex: "\<exists>v \<in> set (probed ?s1). truthy (peerOf demoEnv ''ngx-lib'' v)"
    using p1 peer by simp
  have nc: "''1.0.0'' \<notin> set (probed ?s1)"
    using p1 by simp
  show ?thesis
    using extension_rule [OF lim refl ex nc] lim p1 peer
    by (simp add: demoConfig_def)
qed

theorem early_exit_rule_witness:
  "\<not> exhaustive (demoConfig\<lparr>fastLimit := 1\<rparr>)
   \<and> fastLimit (demoConfig\<lparr>fastLimit := 1\<rparr>) = 1
   \<and> \<not> truthy (peerOf demoEnv ''plain'' ''2.0.0'')
   \<and> classifiedCompatible demoEnv (demoConfig\<lparr>fastLimit := 1\<rparr>) ''plain'' ''2.0.0''
   \<and> probed (fst (scanVersions demoEnv (demoConfig\<lparr>fastLimit := 1\<rparr>) ''plain'' 0 ''1.0.0''
        [''2.0.0'', ''1.0.0''] demoGlobals)) = [''2.0.0'']
   \<and> length (probed (fst (scanVersions demoEnv (demoConfig\<lparr>fastLimit := 1\<rparr>) ''plain'' 0 ''1.0.0''
        [''2.0.0'', ''1.0.0''] demoGlobals))) = 1"
proof -
  let ?cfg = "demoConfig\<lparr>fastLimit := 1\<rparr>"
  let ?sc = "fst (scanVersions demoEnv ?cfg ''plain'' 0 ''1.0.0'' [''2.0.0'', ''1.0.0''] demoGlobals)"
  have ne: "\<not> exhaustive ?cfg" and fl: "fastLimit ?cfg = 1"
    by (simp_all add: demoConfig_def)
  have np: "\<not> truthy (peerOf demoEnv ''plain'' ''2.0.0'')"
    by (simp add: demo_scan)
  have cl: "classifiedCompatible demoEnv ?cfg ''plain'' ''2.0.0''"
    by (simp add: demo_scan)
  note rule = early_exit_rule [OF ne refl, of demoEnv "''plain''" 0 "''1.0.0''"
      "[''2.0.0'', ''1.0.0'']" demoGlobals]
  have p: "probed ?sc = [''2.0.0'']"
    using rule fl np by simp
  have "length (probed ?sc) = 1"
    using conjunct1 [OF rule, rule_format, of 1] p np cl by simp
  then show ?thesis
    using ne fl np cl p by simp
qed

theorem formal_classification_witness:
  "''2.0.0'' \<in> set (probed (fst (scanVersions demoEnv demoConfig ''ngx-lib'' 0 ''1.0.0''
        [''3.0.0'', ''2.0.0'', ''1.0.0''] demoGlobals)))
   \<and> peerOf demoEnv ''ngx-lib'' ''2.0.0'' = Some ''^19.0.0''
   \<and> semver_satisfies demoEnv ''19.0.0'' ''^19.0.0'' (includePrerelease demoConfig)
   \<and> ''2.0.0'' \<in> set (compatVersions (fst (scanVersions demoEnv demoConfig ''ngx-lib'' 0 ''1.0.0''
        [''3.0.0'', ''2.0.0'', ''1.0.0''] demoGlobals)))
   \<and> ''3.0.0'' \<in> set (probed (fst (scanVersions demoEnv demoConfig ''ngx-lib'' 0 ''1.0.0''
        [''3.0.0'', ''2.0.0'', ''1.0.0''] demoGlobals)))
   \<and> peerOf demoEnv ''ngx-lib'' ''3.0.0'' = Some ''^20.0.0''
   \<and> \<not> semver_satisfies demoEnv ''19.0.0'' ''^20.0.0'' (includePrerelease demoConfig)
   \<and> ''3.0.0'' \<notin> set (compatVersions (fst (scanVersions demoEnv demoConfig ''ngx-lib'' 0 ''1.0.0''
        [''3.0.0'', ''2.0.0'', ''1.0.0''] demoGlobals)))"
proof -
  let ?sc = "fst (scanVersions demoEnv demoConfig ''ngx-lib'' 0 ''1.0.0''
        [''3.0.0'', ''2.0.0'', ''1.0.0''] demoGlobals)"
  have p: "probed ?sc = [''3.0.0'', ''2.0.0'', ''1.0.0'']"
    by (simp add: demo_scan)
  have m2: "''2.0.0'' \<in> set (probed ?sc)" and m3: "''3.0.0'' \<in> set (probed ?sc)"
    using p by simp_all
  have r2: "peerOf demoEnv ''ngx-lib'' ''2.0.0'' = Some ''^19.0.0''"
    and r3: "peerOf demoEnv ''ngx-lib'' ''3.0.0'' = Some ''^20.0.0''"
    by (simp_all add: demo_scan)
  have major: "string_of_nat (angularMajor demoConfig) @ ''.0.0'' = ''19.0.0''"
    by (simp add: demoConfig_def string_of_nat_19)
  have s2: "semver_satisfies demoEnv ''19.0.0'' ''^19.0.0'' (includePrerelease demoConfig)"
    and s3: "\<not> semver_satisfies demoEnv ''19.0.0'' ''^20.0.0'' (includePrerelease demoConfig)"
    by (simp_all add: demoEnv_def)
  have c2: "''2.0.0'' \<in> set (compatVersions ?sc)"
    using formal_classification [OF refl m2 r2] s2 major by simp
  have c3: "''3.0.0'' \<notin> set (compatVersions ?sc)"
    using formal_classification [OF refl m3 r3] s3 major by simp
  show ?thesis
    using m2 m3 r2 r3 s2 s3 c2 c3 by simp
qed

theorem no_peer_is_compatible_witness:
  "''1.0.0'' \<in> set (probed (fst (scanVersions demoEnv demoConfig ''mixed'' 0 ''1.0.0''
        [''3.0.0'', ''2.0.0'', ''1.0.0''] demoGlobals)))
   \<and> npm_view_peerDependencies demoEnv ''mixed'' ''1.0.0'' = None
   \<and> hasAngularPeerDep (fst (scanVersions demoEnv demoConfig ''mixed'' 0 ''1.0.0''
        [''3.0.0'', ''2.0.0'', ''1.0.0''] demoGlobals))
   \<and> ''1.0.0'' = last (probed (fst (scanVersions demoEnv demoConfig ''mixed'' 0 ''1.0.0''
        [''3.0.0'', ''2.0.0'', ''1.0.0''] demoGlobals)))
   \<and> ''1.0.0'' \<in> set (compatVersions (fst (scanVersions demoEnv demoConfig ''mixed'' 0 ''1.0.0''
        [''3.0.0'', ''2.0.0'', ''1.0.0''] demoGlobals)))
   \<and> snd (compatBounds (fst (scanVersions demoEnv demoConfig ''mixed'' 0 ''1.0.0''
        [''3.0.0'', ''2.0.0'', ''1.0.0''] demoGlobals))) = Some ''1.0.0''"
proof -
  let ?sc = "fst (scanVersions demoEnv demoConfig ''mixed'' 0 ''1.0.0''
        [''3.0.0'', ''2.0.0'', ''1.0.0''] demoGlobals)"
  have p: "probed ?sc = [''3.0.0'', ''2.0.0'', ''1.0.0'']"
    by (simp add: demo_scan)
  have hp: "hasAngularPeerDep ?sc"
    by (simp add: demo_scan)
  have m: "''1.0.0'' \<in> set (probed ?sc)" and l: "''1.0.0'' = last (probed ?sc)"
    using p by simp_all
  have f: "npm_view_peerDependencies demoEnv ''mixed'' ''1.0.0'' = None"
    by (simp add: demoEnv_def demoPeers_def)
  have f': "npm_view_peerDependencies demoEnv ''mixed'' ''1.0.0'' = None
      \<or> \<not> truthy (peerOf demoEnv ''mixed'' ''1.0.0'')"
    using f by simp
  show ?thesis
    using no_peer_is_compatible [OF refl m f'] hp l m f by simp
qed

theorem fast_limit_zero_witness:
  "fastLimit (demoConfig\<lparr>fastLimit := 0, exhaustive := True\<rparr>) = 0
   \<and> versionsToCheck (demoConfig\<lparr>fastLimit := 0, exhaustive := True\<rparr>)
        [''3.0.0'', ''2.0.0'', ''1.0.0''] = [''3.0.0'', ''2.0.0'', ''1.0.0'']
   \<and> probed (fst (scanVersions demoEnv (demoConfig\<lparr>fastLimit := 0, exhaustive := True\<rparr>)
        ''ngx-lib'' 0 ''3.0.0'' [''3.0.0'', ''2.0.0'', ''1.0.0''] demoGlobals))
       = [''3.0.0'', ''2.0.0'', ''1.0.0'']"
proof -
  have z: "fastLimit (demoConfig\<lparr>fastLimit := 0, exhaustive := True\<rparr>) = 0"
    by simp
  have e: "exhaustive (demoConfig\<lparr>fastLimit := 0, exhaustive := True\<rparr>)"
    by simp
  show ?thesis
    using fast_limit_zero [OF z refl, of "[''3.0.0'', ''2.0.0'', ''1.0.0'']"
        demoEnv "''ngx-lib''" 0 "''3.0.0''" demoGlobals] e
    by simp
qed


section \<open>The recommendation\<close>

lemma mset_insert_cmp: "mset (insert_cmp cmp x xs) = add_mset x (mset xs)"
  by (induction xs) simp_all

lemma mset_sort_cmp: "mset (sort_cmp cmp xs) = mset xs"
  by (induction xs) (simp_all add: mset_insert_cmp)

lemma set_sort_cmp: "set (sort_cmp cmp xs) = set xs"
  using mset_sort_cmp [of cmp xs] by (metis set_mset_mset)

lemma listVersions_valid: "v \<in> set (listVersions E cfg m) \<Longrightarrow> semver_valid E v"
  by (auto simp: listVersions_def Let_def set_sort_cmp split: if_splits)

lemma scanPackage_compat_valid:
  assumes "v \<in> set (compatVersions (fst (scanPackage E cfg entry m w g)))"
  shows "semver_valid E v"
proof -
  have "v \<in> set (probed (fst (scanPackage E cfg entry m w g)))"
    using assms by (simp add: scanPackage_def scanVersions_compat)
  then have "v \<in> set (listVersions E cfg m)"
    using scanVersions_subset by (fastforce simp: scanPackage_def)
  then show ?thesis
    by (rule listVersions_valid)
qed

lemma processPackage_last:
  "last (results (processPackage E cfg entry w g)) = rowOf E cfg entry"
  by (simp add: processPackage_results)

lemma rowOf_recommended:
  assumes "npm_view E (name entry) = Some m"
  shows "recommendedVersion (rowOf E cfg entry) =
     Some (recommendedVersionDisplay
       (displayValues cfg (fst (scanPackage E cfg entry m w g)) (stripRange (current entry))
          (version m) (fst (heuristicInfo E cfg entry m w (scanPackage E cfg entry m w g)))))"
  by (simp add: rowOf_meta [OF assms, of cfg w g] packageInfo_def Let_def)

text \<open>
  Claim C5. For a package whose scan saw an Angular peer dependency and found a compatible
  version, \<^verbatim>\<open>latestCompat\<close> is the first and \<^verbatim>\<open>earliestCompat\<close> the last entry of
  \<open>compatVersions\<close>, and the recommendation of its row is: when the current version
  (its range sign stripped) is in \<open>compatVersions\<close>, \<^verbatim>\<open>#3 Keep current version\<close> if it
  is \<^verbatim>\<open>latestCompat\<close> and \<^verbatim>\<open>#2 Optionally upgrade to <latestCompat>\<close> otherwise; when
  it is not, \<^verbatim>\<open>#1 Must upgrade to <earliestCompat>\<close>. The semver library accepts no
  empty version string, which is what makes both bounds truthy.
\<close>
theorem recommendation_with_peer:
  assumes "npm_view E (name entry) = Some m"
    and "\<not> semver_valid E []"
    and "sc = fst (scanPackage E cfg entry m w g)"
    and "hasAngularPeerDep sc" and "compatVersions sc \<noteq> []"
    and "cc = stripRange (current entry)"
    and "r = last (results (processPackage E cfg entry w g))"
  shows "fst (compatBounds sc) = Some (hd (compatVersions sc))
     \<and> snd (compatBounds sc) = Some (last (compatVersions sc))
     \<and> recommendedVersion r =
         Some (if cc \<in> set (compatVersions sc)
               then (if cc = hd (compatVersions sc) then ''#3 Keep current version''
                     else ''#2 Optionally upgrade to '' @ hd (compatVersions sc))
               else ''#1 Must upgrade to '' @ last (compatVersions sc))"
proof -
  have b: "compatBounds sc = (Some (hd (compatVersions sc)), Some (last (compatVersions sc)))"
    using assms(4,5) by (simp add: compatBounds_def)
  have "semver_valid E (hd (compatVersions sc))" "semver_valid E (last (compatVersions sc))"
    using assms(3,5) scanPackage_compat_valid hd_in_set last_in_set by metis+
  then have ne: "hd (compatVersions sc) \<noteq> []" "last (compatVersions sc) \<noteq> []"
    using assms(2) by auto
  have "recommendedVersion r =
     Some (recommendedVersionDisplay (displayValues cfg sc cc (version m)
       (fst (heuristicInfo E cfg entry m w (scanPackage E cfg entry m w g)))))"
    unfolding assms(3,6,7) processPackage_last by (rule rowOf_recommended [OF assms(1)])
  then show ?thesis
    using b ne assms(4)
    by (auto simp: displayValues_def Let_def truthy_def template_def)
qed

text \<open>
  Claim C6, as the script has it. For a package whose scan saw no Angular peer dependency
  the recommendation depends on the heuristic classifier as well. When the classifier
  answers compatible: \<^verbatim>\<open>#3 Keep current version\<close> if the current version (its range
  sign stripped) equals \<^verbatim>\<open>latest\<close>, and \<^verbatim>\<open>#2 Optionally upgrade to <latest>\<close> if it is
  behind \<^verbatim>\<open>latest\<close>. When the classifier answers not compatible: \<^verbatim>\<open>n/a\<close> if the
  current version equals \<^verbatim>\<open>latest\<close>, and \<^verbatim>\<open>#1 Must upgrade to <latest>\<close> if it is
  behind. Behind means that \<^verbatim>\<open>semver.gt(latest, current)\<close> holds; nothing is said here
  about a current version ahead of \<^verbatim>\<open>latest\<close>.
\<close>
theorem recommendation_without_peer:
  assumes "npm_view E (name entry) = Some m"
    and "sc = fst (scanPackage E cfg entry m w g)"
    and "\<not> hasAngularPeerDep sc"
    and "info = fst (heuristicInfo E cfg entry m w (scanPackage E cfg entry m w g))"
    and "cc = stripRange (current entry)"
    and "r = last (results (processPackage E cfg entry w g))"
    and "\<forall>a. \<not> semver_gt E a a"
  shows "(fst info \<and> version m = Some cc \<longrightarrow>
            recommendedVersion r = Some ''#3 Keep current version'')
     \<and> (\<forall>l. fst info \<and> version m = Some l \<and> l \<noteq> [] \<and> semver_gt E l cc \<longrightarrow>
            recommendedVersion r = Some (''#2 Optionally upgrade to '' @ l))
     \<and> (\<not> fst info \<and> version m = Some cc \<longrightarrow> recommendedVersion r = Some ''n/a'')
     \<and> (\<forall>l. \<not> fst info \<and> version m = Some l \<and> l \<noteq> [] \<and> semver_gt E l cc \<longrightarrow>
            recommendedVersion r = Some (''#1 Must upgrade to '' @ l))"
proof -
  have rv: "recommendedVersion r =
     Some (recommendedVersionDisplay (displayValues cfg sc cc (version m) info))"
    unfolding assms(2,4,5,6) processPackage_last by (rule rowOf_recommended [OF assms(1)])
  have ne: "semver_gt E l cc \<Longrightarrow> l \<noteq> cc" for l
    using assms(7) by blast
  show ?thesis
    using rv assms(3) ne
    by (auto simp: displayValues_def Let_def truthy_def template_def)
qed


section \<open>The recommendation on the example registry\<close>

lemmas demo_package =
  scanPackage_def listVersions_def demoMeta_def demoRcompare_def demoGt_def demoNumbers_def
  heuristicInfo_def checkAngularCompatibility_def angularCompatiblePackages_def
  angularKeywords_def utilityKeywords_def toLowerCase_def

lemma demo_scan_uikit:
  "compatVersions (fst (scanPackage demoEnv demoConfig
      \<lparr>name = ''ui-kit'', current = ''4.0.0'', isDev = False\<rparr>
      (the (demoMeta ''ui-kit'')) 0 demoGlobals)) = [''6.2.0'', ''6.0.0'']"
  "hasAngularPeerDep (fst (scanPackage demoEnv demoConfig
      \<lparr>name = ''ui-kit'', current = ''4.0.0'', isDev = False\<rparr>
      (the (demoMeta ''ui-kit'')) 0 demoGlobals))"
  by (simp_all add: demo_package demo_scan)

theorem recommendation_with_peer_witness:
  "npm_view demoEnv ''ui-kit'' = Some (the (demoMeta ''ui-kit''))
   \<and> \<not> semver_valid demoEnv []
   \<and> hasAngularPeerDep (fst (scanPackage demoEnv demoConfig
        \<lparr>name = ''ui-kit'', current = ''4.0.0'', isDev = False\<rparr>
        (the (demoMeta ''ui-kit'')) 0 demoGlobals))
   \<and> compatVersions (fst (scanPackage demoEnv demoConfig
        \<lparr>name = ''ui-kit'', current = ''4.0.0'', isDev = False\<rparr>
        (the (demoMeta ''ui-kit'')) 0 demoGlobals)) = [''6.2.0'', ''6.0.0'']
   \<and> recommendedVersion (last (results (processPackage demoEnv demoConfig
        \<lparr>name = ''ui-kit'', current = ''4.0.0'', isDev = False\<rparr> 0 demoGlobals)))
      = Some ''#1 Must upgrade to 6.0.0''"
proof -
  let ?e = "\<lparr>name = ''ui-kit'', current = ''4.0.0'', isDev = False\<rparr>"
  have m: "npm_view demoEnv (name ?e) = Some (the (demoMeta ''ui-kit''))"
    by (simp add: demoEnv_def demoMeta_def)
  have v: "\<not> semver_valid demoEnv []"
    by (simp add: demoEnv_def demoNumbers_def)
  have ne: "compatVersions (fst (scanPackage demoEnv demoConfig ?e
        (the (demoMeta ''ui-kit'')) 0 demoGlobals)) \<noteq> []"
    by (simp add: demo_scan_uikit)
  show ?thesis
    using recommendation_with_peer [OF m v refl demo_scan_uikit(2) ne refl refl] m v
    by (simp add: demo_scan_uikit)
qed


lemma demoGt_irrefl: "\<not> semver_gt demoEnv a a"
proof (cases "map_of demoNumbers a")
  case None
  then show ?thesis by (simp add: demoEnv_def demoGt_def)
next
  case (Some x)
  then show ?thesis by (cases x) (simp add: demoEnv_def demoGt_def)
qed

lemma demo_versions_plain:
  "listVersions demoEnv demoConfig (the (demoMeta ''plain'')) = [''2.0.0'', ''1.0.0'']"
  by (simp add: listVersions_def demoMeta_def demoEnv_def demoConfig_def demoRcompare_def
      demoGt_def demoNumbers_def)

lemma demo_versions_opaque:
  "listVersions demoEnv demoConfig (the (demoMeta ''opaque'')) = [''1.2.0'']"
  by (simp add: listVersions_def demoMeta_def demoEnv_def demoConfig_def demoNumbers_def)

lemma demo_scan_plain:
  "\<not> hasAngularPeerDep (fst (scanPackage demoEnv demoConfig
      \<lparr>name = ''plain'', current = c, isDev = False\<rparr> (the (demoMeta ''plain'')) 0 demoGlobals))"
proof -
  have vtc: "versionsToCheck demoConfig [''2.0.0'', ''1.0.0''] = ''2.0.0'' # [''1.0.0'']"
    by (simp add: versionsToCheck_def demoConfig_def)
  have np: "\<not> truthy (peerOf demoEnv ''plain'' ''2.0.0'')"
    by (simp add: peerOf_def demoEnv_def demoPeers_def demoPeerRanges_def js_or_def truthy_def)
  have ne: "\<not> exhaustive demoConfig"
    by (simp add: demoConfig_def)
  show ?thesis
    unfolding scanPackage_def demo_versions_plain scanVersions_hasPeer
    using firstScan_no_peer(2) [OF ne vtc np] by simp
qed

lemma demo_scan_opaque:
  "\<not> hasAngularPeerDep (fst (scanPackage demoEnv demoConfig
      \<lparr>name = ''opaque'', current = c, isDev = False\<rparr> (the (demoMeta ''opaque'')) 0 demoGlobals))"
proof -
  have vtc: "versionsToCheck demoConfig [''1.2.0''] = ''1.2.0'' # []"
    by (simp add: versionsToCheck_def demoConfig_def)
  have np: "\<not> truthy (peerOf demoEnv ''opaque'' ''1.2.0'')"
    by (simp add: peerOf_def demoEnv_def demoPeers_def demoPeerRanges_def js_or_def truthy_def)
  have ne: "\<not> exhaustive demoConfig"
    by (simp add: demoConfig_def)
  show ?thesis
    unfolding scanPackage_def demo_versions_opaque scanVersions_hasPeer
    using firstScan_no_peer(2) [OF ne vtc np] by simp
qed

lemma demo_check_plain:
  "fst (checkAngularCompatibility demoEnv demoConfig ''plain'' (Some ''2.0.0'')
      [''2.0.0'', ''1.0.0''] 0 g) = (True, ''No explicit framework dependencies detected'')"
  by (simp add: checkAngularCompatibility_def angularCompatiblePackages_def angularKeywords_def
      utilityKeywords_def toLowerCase_def demoEnv_def Let_def)

lemma demo_check_opaque:
  "fst (checkAngularCompatibility demoEnv demoConfig ''opaque'' (Some ''1.2.0'')
      [''1.2.0''] 0 g) = (False, ''Failed to check compatibility'')"
  by (simp add: checkAngularCompatibility_def angularCompatiblePackages_def demoEnv_def Let_def)

lemma demo_info_plain:
  "fst (heuristicInfo demoEnv demoConfig
      \<lparr>name = ''plain'', current = c, isDev = False\<rparr> (the (demoMeta ''plain'')) 0
      (scanPackage demoEnv demoConfig
        \<lparr>name = ''plain'', current = c, isDev = False\<rparr> (the (demoMeta ''plain'')) 0 demoGlobals))
   = (True, ''No explicit framework dependencies detected'')"
proof -
  have v: "version (the (demoMeta ''plain'')) = Some ''2.0.0''"
    by (simp add: demoMeta_def)
  show ?thesis
    unfolding heuristicInfo_def demo_versions_plain v
    using demo_scan_plain [of c] by (simp add: demo_check_plain)
qed

lemma demo_info_opaque:
  "fst (heuristicInfo demoEnv demoConfig
      \<lparr>name = ''opaque'', current = c, isDev = False\<rparr> (the (demoMeta ''opaque'')) 0
      (scanPackage demoEnv demoConfig
        \<lparr>name = ''opaque'', current = c, isDev = False\<rparr> (the (demoMeta ''opaque'')) 0 demoGlobals))
   = (False, ''Failed to check compatibility'')"
proof -
  have v: "version (the (demoMeta ''opaque'')) = Some ''1.2.0''"
    by (simp add: demoMeta_def)
  show ?thesis
    unfolding heuristicInfo_def demo_versions_opaque v
    using demo_scan_opaque [of c] by (simp add: demo_check_opaque)
qed

theorem recommendation_without_peer_witness:
  "npm_view demoEnv ''plain'' = Some (the (demoMeta ''plain''))
   \<and> \<not> hasAngularPeerDep (fst (scanPackage demoEnv demoConfig
        \<lparr>name = ''plain'', current = ''^1.0.0'', isDev = False\<rparr>
        (the (demoMeta ''plain'')) 0 demoGlobals))
   \<and> version (the (demoMeta ''plain'')) = Some ''2.0.0''
   \<and> semver_gt demoEnv ''2.0.0'' (stripRange ''^1.0.0'')
   \<and> recommendedVersion (last (results (processPackage demoEnv demoConfig
        \<lparr>name = ''plain'', current = ''^1.0.0'', isDev = False\<rparr> 0 demoGlobals)))
      = Some ''#2 Optionally upgrade to 2.0.0''
   \<and> recommendedVersion (last (results (processPackage demoEnv demoConfig
        \<lparr>name = ''plain'', current = ''2.0.0'', isDev = False\<rparr> 0 demoGlobals)))
      = Some ''#3 Keep current version''
   \<and> npm_view demoEnv ''opaque'' = Some (the (demoMeta ''opaque''))
   \<and> version (the (demoMeta ''opaque'')) = Some ''1.2.0''
   \<and> semver_gt demoEnv ''1.2.0'' ''1.0.0''
   \<and> recommendedVersion (last (results (processPackage demoEnv demoConfig
        \<lparr>name = ''opaque'', current = ''1.0.0'', isDev = False\<rparr> 0 demoGlobals)))
      = Some ''#1 Must upgrade to 1.2.0''
   \<and> recommendedVersion (last (results (processPackage demoEnv demoConfig
        \<lparr>name = ''opaque'', current = ''1.2.0'', isDev = False\<rparr> 0 demoGlobals)))
      = Some ''n/a''"
proof -
  let ?p = "\<lambda>c. \<lparr>name = ''plain'', current = c, isDev = False\<rparr>"
  let ?o = "\<lambda>c. \<lparr>name = ''opaque'', current = c, isDev = False\<rparr>"
  have mp: "npm_view demoEnv (name (?p c)) = Some (the (demoMeta ''plain''))" for c
    by (simp add: demoEnv_def demoMeta_def)
  have mo: "npm_view demoEnv (name (?o c)) = Some (the (demoMeta ''opaque''))" for c
    by (simp add: demoEnv_def demoMeta_def)
  have vp: "version (the (demoMeta ''plain'')) = Some ''2.0.0''"
    and vo: "version (the (demoMeta ''opaque'')) = Some ''1.2.0''"
    by (simp_all add: demoMeta_def)
  have gp: "semver_gt demoEnv ''2.0.0'' (stripRange ''^1.0.0'')"
    and go: "semver_gt demoEnv ''1.2.0'' ''1.0.0''"
    by (simp_all add: demoEnv_def demoGt_def demoNumbers_def)
  have irr: "\<forall>a. \<not> semver_gt demoEnv a a"
    using demoGt_irrefl by blast
  note p1 = recommendation_without_peer [OF mp refl demo_scan_plain refl refl refl irr,
      of "''^1.0.0''"]
  note p2 = recommendation_without_peer [OF mp refl demo_scan_plain refl refl refl irr,
      of "''2.0.0''"]
  note o1 = recommendation_without_peer [OF mo refl demo_scan_opaque refl refl refl irr,
      of "''1.0.0''"]
  note o2 = recommendation_without_peer [OF mo refl demo_scan_opaque refl refl refl irr,
      of "''1.2.0''"]
  have a: "recommendedVersion (last (results (processPackage demoEnv demoConfig
        (?p ''^1.0.0'') 0 demoGlobals))) = Some ''#2 Optionally upgrade to 2.0.0''"
    using p1 vp gp by (simp add: demo_info_plain)
  have b: "recommendedVersion (last (results (processPackage demoEnv demoConfig
        (?p ''2.0.0'') 0 demoGlobals))) = Some ''#3 Keep current version''"
    using p2 vp by (simp add: demo_info_plain)
  have c: "recommendedVersion (last (results (processPackage demoEnv demoConfig
        (?o ''1.0.0'') 0 demoGlobals))) = Some ''#1 Must upgrade to 1.2.0''"
    using o1 vo go by (simp add: demo_info_opaque)
  have d: "recommendedVersion (last (results (processPackage demoEnv demoConfig
        (?o ''1.2.0'') 0 demoGlobals))) = Some ''n/a''"
    using o2 vo by (simp add: demo_info_opaque)
  show ?thesis
    using a b c d mp [of "''x''"] mo [of "''x''"] vp vo gp go demo_scan_plain [of "''^1.0.0''"]
    by simp
qed

text \<open>
  The claim C6 as the specification words it fails on two inputs. The package \<open>opaque\<close>
  has no peer dependency and its current version is \<^verbatim>\<open>latest\<close>, but the query for its
  keywords fails, and the recommendation is \<^verbatim>\<open>n/a\<close>, not \<^verbatim>\<open>Keep\<close>. The package
  \<open>plain\<close> has no peer dependency and its current version 3.0.0 is ahead of the latest
  version 2.0.0, and the recommendation is \<^verbatim>\<open>#2 Optionally upgrade to 2.0.0\<close>.
\<close>

lemma demo_row:
  assumes "npm_view demoEnv (name entry) = Some m"
  shows "recommendedVersion (last (results (processPackage demoEnv demoConfig entry 0 demoGlobals)))
     = Some (recommendedVersionDisplay
         (displayValues demoConfig (fst (scanPackage demoEnv demoConfig entry m 0 demoGlobals))
           (stripRange (current entry)) (version m)
           (fst (heuristicInfo demoEnv demoConfig entry m 0
              (scanPackage demoEnv demoConfig entry m 0 demoGlobals)))))"
  unfolding processPackage_last by (rule rowOf_recommended [OF assms])

theorem recommendation_without_peer_counterexample:
  "\<not> hasAngularPeerDep (fst (scanPackage demoEnv demoConfig
        \<lparr>name = ''opaque'', current = ''1.2.0'', isDev = False\<rparr>
        (the (demoMeta ''opaque'')) 0 demoGlobals))
   \<and> latest (last (results (processPackage demoEnv demoConfig
        \<lparr>name = ''opaque'', current = ''1.2.0'', isDev = False\<rparr> 0 demoGlobals)))
      = Some ''1.2.0''
   \<and> recommendedVersion (last (results (processPackage demoEnv demoConfig
        \<lparr>name = ''opaque'', current = ''1.2.0'', isDev = False\<rparr> 0 demoGlobals)))
      \<noteq> Some ''#3 Keep current version''
   \<and> \<not> hasAngularPeerDep (fst (scanPackage demoEnv demoConfig
        \<lparr>name = ''plain'', current = ''3.0.0'', isDev = False\<rparr>
        (the (demoMeta ''plain'')) 0 demoGlobals))
   \<and> latest (last (results (processPackage demoEnv demoConfig
        \<lparr>name = ''plain'', current = ''3.0.0'', isDev = False\<rparr> 0 demoGlobals)))
      = Some ''2.0.0''
   \<and> semver_gt demoEnv ''3.0.0'' ''2.0.0''
   \<and> recommendedVersion (last (results (processPackage demoEnv demoConfig
        \<lparr>name = ''plain'', current = ''3.0.0'', isDev = False\<rparr> 0 demoGlobals)))
      = Some ''#2 Optionally upgrade to 2.0.0''"
proof -
  let ?p = "\<lparr>name = ''plain'', current = ''3.0.0'', isDev = False\<rparr>"
  let ?o = "\<lparr>name = ''opaque'', current = ''1.2.0'', isDev = False\<rparr>"
  have mp: "npm_view demoEnv (name ?p) = Some (the (demoMeta ''plain''))"
    by (simp add: demoEnv_def demoMeta_def)
  have mo: "npm_view demoEnv (name ?o) = Some (the (demoMeta ''opaque''))"
    by (simp add: demoEnv_def demoMeta_def)
  have lp: "latest (rowOf demoEnv demoConfig ?p) = Some ''2.0.0''"
    by (simp add: rowOf_meta [OF mp, of demoConfig 0 demoGlobals] packageInfo_def Let_def
        demoMeta_def)
  have lo: "latest (rowOf demoEnv demoConfig ?o) = Some ''1.2.0''"
    by (simp add: rowOf_meta [OF mo, of demoConfig 0 demoGlobals] packageInfo_def Let_def
        demoMeta_def)
  have rp: "recommendedVersion (last (results (processPackage demoEnv demoConfig ?p 0 demoGlobals)))
      = Some ''#2 Optionally upgrade to 2.0.0''"
    unfolding demo_row [OF mp] demo_info_plain
    using demo_scan_plain [of "''3.0.0''"]
    by (simp add: displayValues_def Let_def template_def demoMeta_def)
  have ro: "recommendedVersion (last (results (processPackage demoEnv demoConfig ?o 0 demoGlobals)))
      = Some ''n/a''"
    unfolding demo_row [OF mo] demo_info_opaque
    using demo_scan_opaque [of "''1.2.0''"]
    by (simp add: displayValues_def Let_def template_def truthy_def demoMeta_def)
  have g: "semver_gt demoEnv ''3.0.0'' ''2.0.0''"
    by (simp add: demoEnv_def demoGt_def demoNumbers_def)
  show ?thesis
    using lp lo rp ro g demo_scan_plain [of "''3.0.0''"] demo_scan_opaque [of "''1.2.0''"]
    by (simp add: processPackage_last)
qed

section \<open>The worker pool\<close>

lemma finished_redrawScreen [simp]: "finished (redrawScreen cfg g) = finished g"
  by (simp add: redrawScreen_def)

lemma finished_updateWorkerStatus [simp]:
  "finished (updateWorkerStatus E cfg w st g) = finished g"
  by (simp add: updateWorkerStatus_def Let_def)

lemma length_workerStep [simp]:
  "length (workers (workerStep E cfg i p)) = length (workers p)"
  by (simp add: workerStep_def split: wstate.splits list.splits)

lemma workerStep_noop:
  "length (workers p) \<le> i \<or> workers p ! i = Finished \<Longrightarrow> workerStep E cfg i p = p"
  by (auto simp: workerStep_def)

lemma workerStep_other:
  "i' \<noteq> i \<Longrightarrow> workers (workerStep E cfg i p) ! i' = workers p ! i'"
  by (simp add: workerStep_def split: wstate.splits list.splits)

lemma inFlight_start:
  assumes "i < length ws" "ws ! i = Waiting"
  shows "mset (inFlight (ws[i := Processing e])) = add_mset e (mset (inFlight ws))"
  using assms
proof (induction ws arbitrary: i)
  case Nil
  then show ?case by simp
next
  case (Cons a ws)
  then show ?case
    by (cases i; cases a) simp_all
qed

lemma inFlight_complete:
  assumes "i < length ws" "ws ! i = Processing e"
  shows "add_mset e (mset (inFlight (ws[i := Waiting]))) = mset (inFlight ws)"
  using assms
proof (induction ws arbitrary: i)
  case Nil
  then show ?case by simp
next
  case (Cons a ws)
  then show ?case
    by (cases i; cases a) simp_all
qed

lemma inFlight_leave:
  assumes "i < length ws" "ws ! i = Waiting"
  shows "inFlight (ws[i := Finished]) = inFlight ws"
  using assms
proof (induction ws arbitrary: i)
  case Nil
  then show ?case by simp
next
  case (Cons a ws)
  then show ?case
    by (cases i; cases a) simp_all
qed

lemma inFlight_allFinished: "list_all (\<lambda>w. w = Finished) ws \<Longrightarrow> inFlight ws = []"
  by (induction ws) auto

text \<open>
  Every step keeps the rows accounted for: the rows of the queued entries, of the
  entries inside a worker, and the rows already pushed.
\<close>

lemma workerStep_rows:
  "image_mset (rowOf E cfg) (mset (queue (workerStep E cfg i p)))
     + image_mset (rowOf E cfg) (mset (inFlight (workers (workerStep E cfg i p))))
     + mset (results (glob (workerStep E cfg i p)))
   = image_mset (rowOf E cfg) (mset (queue p))
     + image_mset (rowOf E cfg) (mset (inFlight (workers p)))
     + mset (results (glob p))"
proof (cases "i < length (workers p)")
  case False
  then show ?thesis by (simp add: workerStep_noop)
next
  case True
  show ?thesis
  proof (cases "workers p ! i")
    case Waiting
    show ?thesis
    proof (cases "queue p")
      case Nil
      then show ?thesis
        using True Waiting by (simp add: workerStep_def inFlight_leave)
    next
      case (Cons e rest)
      then show ?thesis
        using True Waiting by (simp add: workerStep_def inFlight_start)
    qed
  next
    case (Processing e)
    have "image_mset (rowOf E cfg) (mset (inFlight (workers p)))
        = image_mset (rowOf E cfg) (add_mset e (mset (inFlight ((workers p)[i := Waiting]))))"
      by (simp only: inFlight_complete [OF True Processing])
    then have "image_mset (rowOf E cfg) (mset (inFlight (workers p)))
        = add_mset (rowOf E cfg e)
            (image_mset (rowOf E cfg) (mset (inFlight ((workers p)[i := Waiting]))))"
      by simp
    then show ?thesis
      using True Processing by (simp add: workerStep_def processPackage_results)
  next
    case Finished
    then show ?thesis by (simp add: workerStep_noop)
  qed
qed

lemma runSchedule_rows:
  "image_mset (rowOf E cfg) (mset (queue (runSchedule E cfg sch p)))
     + image_mset (rowOf E cfg) (mset (inFlight (workers (runSchedule E cfg sch p))))
     + mset (results (glob (runSchedule E cfg sch p)))
   = image_mset (rowOf E cfg) (mset (queue p))
     + image_mset (rowOf E cfg) (mset (inFlight (workers p)))
     + mset (results (glob p))"
  by (induction sch arbitrary: p) (simp_all add: workerStep_rows)

text \<open>A worker leaves its loop only when the queue is empty, and the queue never grows.\<close>

lemma workerStep_queue:
  assumes "Finished \<in> set (workers p) \<longrightarrow> queue p = []"
  shows "Finished \<in> set (workers (workerStep E cfg i p)) \<longrightarrow> queue (workerStep E cfg i p) = []"
proof (cases "i < length (workers p)")
  case False
  then show ?thesis using assms by (simp add: workerStep_noop)
next
  case True
  show ?thesis
  proof (cases "workers p ! i")
    case Waiting
    show ?thesis
    proof (cases "queue p")
      case Nil
      then show ?thesis
        using True Waiting by (simp add: workerStep_def)
    next
      case (Cons e rest)
      then have "Finished \<notin> set (workers p)"
        using assms by auto
      then have "Finished \<notin> set ((workers p)[i := Processing e])"
        using set_update_subset_insert [of "workers p" i "Processing e"] by auto
      then show ?thesis
        using True Waiting Cons by (simp add: workerStep_def)
    qed
  next
    case (Processing e)
    have "Finished \<in> set ((workers p)[i := Waiting]) \<Longrightarrow> Finished \<in> set (workers p)"
      using set_update_subset_insert [of "workers p" i Waiting] by auto
    then show ?thesis
      using True Processing assms by (auto simp: workerStep_def)
  next
    case Finished
    then show ?thesis using assms by (simp add: workerStep_noop)
  qed
qed

lemma runSchedule_queue:
  "Finished \<in> set (workers p) \<longrightarrow> queue p = [] \<Longrightarrow>
   Finished \<in> set (workers (runSchedule E cfg sch p)) \<longrightarrow> queue (runSchedule E cfg sch p) = []"
proof (induction sch arbitrary: p)
  case Nil
  then show ?case by simp
next
  case (Cons i sch)
  show ?case
    using Cons.IH [OF workerStep_queue [OF Cons.prems]] by simp
qed

lemma length_runSchedule [simp]:
  "length (workers (runSchedule E cfg sch p)) = length (workers p)"
  by (induction sch arbitrary: p) simp_all

lemma runSchedule_no_workers: "workers p = [] \<Longrightarrow> runSchedule E cfg sch p = p"
  by (induction sch arbitrary: p) (simp_all add: workerStep_noop)

lemma results_startGlobals [simp]: "results (startGlobals cfg es) = []"
  by (simp add: startGlobals_def Let_def)

text \<open>The rows of a finished run are the rows of the entries.\<close>

lemma startPool_fields [simp]:
  "queue (startPool cfg es) = es"
  "workers (startPool cfg es) = replicate (min (jobs cfg) (length es)) Waiting"
  "results (glob (startPool cfg es)) = []"
  by (simp_all add: startPool_def)

lemma inFlight_waiting [simp]: "inFlight (replicate n Waiting) = []"
  by (induction n) simp_all

lemma run_Some:
  "run E cfg sch es = Some out \<Longrightarrow>
     allFinished (runSchedule E cfg sch (startPool cfg es))
     \<and> out = sortedResults E (results (glob (runSchedule E cfg sch (startPool cfg es))))"
  by (simp add: run_def Let_def split: if_splits)

lemma run_queue_empty:
  assumes "0 < jobs cfg" "allFinished (runSchedule E cfg sch (startPool cfg es))"
  shows "queue (runSchedule E cfg sch (startPool cfg es)) = []"
proof (cases "es = []")
  case True
  then have "workers (startPool cfg es) = []"
    by simp
  then have "runSchedule E cfg sch (startPool cfg es) = startPool cfg es"
    by (rule runSchedule_no_workers)
  then show ?thesis
    using True by simp
next
  case False
  let ?p = "runSchedule E cfg sch (startPool cfg es)"
  have "0 < length (workers ?p)"
    using False assms(1) by simp
  then obtain w ws where ws: "workers ?p = w # ws"
    by (cases "workers ?p") auto
  then have "w = Finished"
    using assms(2) by (simp add: allFinished_def)
  then have f: "Finished \<in> set (workers ?p)"
    using ws by simp
  have "Finished \<in> set (workers (startPool cfg es)) \<longrightarrow> queue (startPool cfg es) = []"
    by simp
  then have "Finished \<in> set (workers ?p) \<longrightarrow> queue ?p = []"
    by (rule runSchedule_queue)
  then show ?thesis
    using f by simp
qed

lemma run_rows:
  assumes "0 < jobs cfg" "run E cfg sch es = Some out"
  shows "mset out = image_mset (rowOf E cfg) (mset es)"
proof -
  let ?p = "runSchedule E cfg sch (startPool cfg es)"
  have fin: "allFinished ?p" and out: "out = sortedResults E (results (glob ?p))"
    using run_Some [OF assms(2)] by simp_all
  have nofl: "inFlight (workers ?p) = []"
    using fin by (simp add: allFinished_def inFlight_allFinished)
  have q: "queue ?p = []"
    using assms(1) fin by (rule run_queue_empty)
  have "image_mset (rowOf E cfg) (mset (queue ?p))
     + image_mset (rowOf E cfg) (mset (inFlight (workers ?p)))
     + mset (results (glob ?p))
   = image_mset (rowOf E cfg) (mset (queue (startPool cfg es)))
     + image_mset (rowOf E cfg) (mset (inFlight (workers (startPool cfg es))))
     + mset (results (glob (startPool cfg es)))"
    by (rule runSchedule_rows)
  then have "mset (results (glob ?p)) = image_mset (rowOf E cfg) (mset es)"
    by (simp add: nofl q)
  then show ?thesis
    by (simp add: out sortedResults_def mset_sort_cmp)
qed

text \<open>Every step of a worker that has not left its loop uses up one of the steps left.\<close>

lemma notFinished_same:
  assumes "i < length ws" "ws ! i \<noteq> Finished" "w \<noteq> Finished"
  shows "length (filter (\<lambda>w. w \<noteq> Finished) (ws[i := w])) = length (filter (\<lambda>w. w \<noteq> Finished) ws)"
  using assms
proof (induction ws arbitrary: i)
  case Nil
  then show ?case by simp
next
  case (Cons a ws)
  then show ?case
    by (cases i) simp_all
qed

lemma notFinished_less:
  assumes "i < length ws" "ws ! i \<noteq> Finished"
  shows "Suc (length (filter (\<lambda>w. w \<noteq> Finished) (ws[i := Finished])))
       = length (filter (\<lambda>w. w \<noteq> Finished) ws)"
  using assms
proof (induction ws arbitrary: i)
  case Nil
  then show ?case by simp
next
  case (Cons a ws)
  then show ?case
    by (cases i) simp_all
qed

lemma notFinished_pos:
  "i < length ws \<Longrightarrow> ws ! i \<noteq> Finished \<Longrightarrow> 0 < length (filter (\<lambda>w. w \<noteq> Finished) ws)"
proof -
  assume "i < length ws" "ws ! i \<noteq> Finished"
  then have "ws ! i \<in> set (filter (\<lambda>w. w \<noteq> Finished) ws)"
    by simp
  then show ?thesis
    by (rule length_pos_if_in_set)
qed

lemma stepsLeft_workerStep:
  assumes "i < length (workers p)" "workers p ! i \<noteq> Finished"
  shows "Suc (stepsLeft (workerStep E cfg i p)) = stepsLeft p"
proof (cases "workers p ! i")
  case Waiting
  show ?thesis
  proof (cases "queue p")
    case Nil
    then show ?thesis
      using assms Waiting notFinished_less [OF assms]
      by (simp add: workerStep_def stepsLeft_def inFlight_leave)
  next
    case (Cons e rest)
    have "size (mset (inFlight ((workers p)[i := Processing e])))
        = size (add_mset e (mset (inFlight (workers p))))"
      by (simp only: inFlight_start [OF assms(1) Waiting])
    then have "length (inFlight ((workers p)[i := Processing e])) = Suc (length (inFlight (workers p)))"
      by simp
    then show ?thesis
      using assms Waiting Cons notFinished_same [OF assms, of "Processing e"]
      by (simp add: workerStep_def stepsLeft_def)
  qed
next
  case (Processing e)
  have "size (add_mset e (mset (inFlight ((workers p)[i := Waiting]))))
      = size (mset (inFlight (workers p)))"
    by (simp only: inFlight_complete [OF assms(1) Processing])
  then have "Suc (length (inFlight ((workers p)[i := Waiting]))) = length (inFlight (workers p))"
    by simp
  then show ?thesis
    using assms Processing notFinished_same [OF assms, of Waiting]
    by (simp add: workerStep_def stepsLeft_def)
next
  case Finished
  then show ?thesis using assms by simp
qed

text \<open>
  A schedule in which every worker that is still in its loop gets as many turns as there
  are steps left brings the pool to its end.
\<close>

lemma fair_schedule_finishes:
  "(\<forall>i < length (workers p). workers p ! i \<noteq> Finished \<longrightarrow> stepsLeft p \<le> count_list sch i) \<Longrightarrow>
   allFinished (runSchedule E cfg sch p)"
proof (induction sch arbitrary: p)
  case Nil
  have "workers p ! i = Finished" if "i < length (workers p)" for i
  proof (rule ccontr)
    assume nf: "workers p ! i \<noteq> Finished"
    then have "stepsLeft p = 0"
      using Nil that by simp
    moreover have "0 < stepsLeft p"
      using notFinished_pos [OF that nf] by (simp add: stepsLeft_def)
    ultimately show False by simp
  qed
  then show ?case
    by (simp add: allFinished_def list_all_length)
next
  case (Cons j sch)
  let ?p' = "workerStep E cfg j p"
  have "\<forall>i < length (workers ?p'). workers ?p' ! i \<noteq> Finished \<longrightarrow> stepsLeft ?p' \<le> count_list sch i"
  proof (intro allI impI)
    fix i
    assume i: "i < length (workers ?p')" and nf: "workers ?p' ! i \<noteq> Finished"
    show "stepsLeft ?p' \<le> count_list sch i"
    proof (cases "length (workers p) \<le> j \<or> workers p ! j = Finished")
      case True
      then have same: "?p' = p"
        by (rule workerStep_noop)
      then have "j \<noteq> i"
        using True i nf by auto
      then have "count_list (j # sch) i = count_list sch i"
        by simp
      moreover have "stepsLeft p \<le> count_list (j # sch) i"
        using Cons.prems i nf same by simp
      ultimately show ?thesis
        using same by simp
    next
      case False
      then have step: "Suc (stepsLeft ?p') = stepsLeft p"
        using stepsLeft_workerStep by simp
      have "workers p ! i \<noteq> Finished"
        using False nf workerStep_other [of i j E cfg p] by (cases "i = j") auto
      then have "stepsLeft p \<le> count_list (j # sch) i"
        using Cons.prems i by simp
      then show ?thesis
        using step by (simp split: if_splits)
    qed
  qed
  then show ?case
    using Cons.IH by simp
qed

lemma stepsLeft_startPool:
  "stepsLeft (startPool cfg es) = 2 * length es + min (jobs cfg) (length es)"
  by (simp add: stepsLeft_def)



lemma run_total:
  assumes "\<forall>i < min (jobs cfg) (length es).
             2 * length es + min (jobs cfg) (length es) \<le> count_list sch i"
  shows "run E cfg sch es \<noteq> None"
proof -
  have "allFinished (runSchedule E cfg sch (startPool cfg es))"
    by (rule fair_schedule_finishes) (use assms in \<open>simp add: stepsLeft_startPool\<close>)
  then show ?thesis
    by (simp add: run_def Let_def)
qed

text \<open>
  Claim C1. Whatever the registry answers and in whatever order the workers continue:
  when \<^verbatim>\<open>run\<close> has come to its end, its output has as many rows as there are entries,
  and the names of the rows are the names of the entries, each as often as it stands in
  the input. And \<^verbatim>\<open>run\<close> does come to its end: on every schedule that gives each worker
  \<open>2 * length es + workerCount\<close> turns, every worker has left its loop.
\<close>

theorem one_row_per_entry:
  assumes "0 < jobs cfg"
  shows "(\<forall>out. run E cfg sch es = Some out \<longrightarrow>
            length out = length es \<and> mset (map name out) = mset (map name es))
     \<and> ((\<forall>i < min (jobs cfg) (length es).
            2 * length es + min (jobs cfg) (length es) \<le> count_list sch i)
          \<longrightarrow> run E cfg sch es \<noteq> None)"
proof (intro conjI allI impI)
  fix out
  assume "run E cfg sch es = Some out"
  then have rows: "mset out = image_mset (rowOf E cfg) (mset es)"
    using assms by (rule run_rows [rotated])
  then have "size (mset out) = size (image_mset (rowOf E cfg) (mset es))"
    by simp
  then show "length out = length es"
    by simp
  have "mset (map name out) = image_mset name (image_mset (rowOf E cfg) (mset es))"
    using rows by (metis mset_map)
  also have "\<dots> = image_mset (\<lambda>e. name (rowOf E cfg e)) (mset es)"
    by (simp add: image_mset.compositionality comp_def)
  also have "\<dots> = mset (map name es)"
    by (simp add: rowOf_name)
  finally show "mset (map name out) = mset (map name es)" .
next
  assume "\<forall>i < min (jobs cfg) (length es).
            2 * length es + min (jobs cfg) (length es) \<le> count_list sch i"
  then show "run E cfg sch es \<noteq> None"
    by (rule run_total)
qed

text \<open>
  Claim C7. When the metadata query of a package fails, \<^verbatim>\<open>processPackage\<close> still
  pushes one row for it, with \<^verbatim>\<open>Unknown\<close> and \<^verbatim>\<open>n/a\<close> in its fields and the note
  \<^verbatim>\<open>Failed to fetch metadata\<close>, and counts the package as finished. The worker that
  processed it is back in its loop and takes the next entry of the queue. A run over a
  list that holds the package ends on every schedule that gives each worker its turns,
  and its rows are the failure row and, for every other entry, the row this entry has on
  its own.
\<close>

theorem metadata_failure:
  assumes "npm_view E (name entry) = None"
  shows "results (processPackage E cfg entry w g) = results g @ [failureInfo entry]
     \<and> finished (processPackage E cfg entry w g) = finished g + 1
     \<and> name (failureInfo entry) = name entry
     \<and> latest (failureInfo entry) = None
     \<and> peerAngular (failureInfo entry) = Some ''Unknown''
     \<and> versionsBehindLatestCompat (failureInfo entry) = Some ''Unknown''
     \<and> earliestCompat (failureInfo entry) = Some ''n/a''
     \<and> latestCompat (failureInfo entry) = Some ''n/a''
     \<and> recommendedVersion (failureInfo entry) = Some ''n/a''
     \<and> note' (failureInfo entry) = Some ''Failed to fetch metadata''
     \<and> (w < length (workers p) \<and> workers p ! w = Processing entry \<longrightarrow>
          workers (workerStep E cfg w p) ! w = Waiting
          \<and> queue (workerStep E cfg w p) = queue p
          \<and> results (glob (workerStep E cfg w p)) = results (glob p) @ [failureInfo entry]
          \<and> (\<forall>next rest. queue p = next # rest \<longrightarrow>
                workers (workerStep E cfg w (workerStep E cfg w p)) ! w = Processing next))
     \<and> (0 < jobs cfg \<longrightarrow>
          (\<forall>out. run E cfg sch (es1 @ entry # es2) = Some out \<longrightarrow>
             mset out = add_mset (failureInfo entry)
               (image_mset (rowOf E cfg) (mset (es1 @ es2))))
          \<and> ((\<forall>i < min (jobs cfg) (length (es1 @ entry # es2)).
                 2 * length (es1 @ entry # es2) + min (jobs cfg) (length (es1 @ entry # es2))
                   \<le> count_list sch i)
               \<longrightarrow> run E cfg sch (es1 @ entry # es2) \<noteq> None))"
proof -
  have row: "rowOf E cfg entry = failureInfo entry"
    using assms by (rule rowOf_failure)
  have a: "results (processPackage E cfg entry w g) = results g @ [failureInfo entry]" for g
    by (simp add: processPackage_results row)
  have b: "finished (processPackage E cfg entry w g) = finished g + 1"
    using assms by (simp add: processPackage_def Let_def)
  have c: "workers (workerStep E cfg w p) ! w = Waiting
          \<and> queue (workerStep E cfg w p) = queue p
          \<and> results (glob (workerStep E cfg w p)) = results (glob p) @ [failureInfo entry]
          \<and> (\<forall>next rest. queue p = next # rest \<longrightarrow>
                workers (workerStep E cfg w (workerStep E cfg w p)) ! w = Processing next)"
    if "w < length (workers p) \<and> workers p ! w = Processing entry"
  proof -
    have s: "workerStep E cfg w p =
        p\<lparr>workers := (workers p)[w := Waiting], glob := processPackage E cfg entry w (glob p)\<rparr>"
      using that by (simp add: workerStep_def)
    show ?thesis
      unfolding s using that by (simp add: workerStep_def a)
  qed
  have d: "mset out = add_mset (failureInfo entry) (image_mset (rowOf E cfg) (mset (es1 @ es2)))"
    if "0 < jobs cfg" "run E cfg sch (es1 @ entry # es2) = Some out" for out
    using run_rows [OF that] by (simp add: row)
  have e: "run E cfg sch (es1 @ entry # es2) \<noteq> None"
    if "\<forall>i < min (jobs cfg) (length (es1 @ entry # es2)).
          2 * length (es1 @ entry # es2) + min (jobs cfg) (length (es1 @ entry # es2))
            \<le> count_list sch i"
    using that by (rule run_total)
  have f: "name (failureInfo entry) = name entry
     \<and> latest (failureInfo entry) = None
     \<and> peerAngular (failureInfo entry) = Some ''Unknown''
     \<and> versionsBehindLatestCompat (failureInfo entry) = Some ''Unknown''
     \<and> earliestCompat (failureInfo entry) = Some ''n/a''
     \<and> latestCompat (failureInfo entry) = Some ''n/a''
     \<and> recommendedVersion (failureInfo entry) = Some ''n/a''
     \<and> note' (failureInfo entry) = Some ''Failed to fetch metadata''"
    by (simp add: failureInfo_def)
  show ?thesis
    using a [of g] b c d e f by blast
qed

section \<open>The display is observational\<close>

lemma workerStep_rel:
  assumes "sameSettings cfg cfg'" "sameWorld E E'"
    and "queue p' = queue p" "workers p' = workers p" "results (glob p') = results (glob p)"
  shows "queue (workerStep E' cfg' i p') = queue (workerStep E cfg i p)
     \<and> workers (workerStep E' cfg' i p') = workers (workerStep E cfg i p)
     \<and> results (glob (workerStep E' cfg' i p')) = results (glob (workerStep E cfg i p))"
proof (cases "i < length (workers p)")
  case False
  then show ?thesis
    using assms(3-5) by (simp add: workerStep_noop)
next
  case True
  show ?thesis
  proof (cases "workers p ! i")
    case Waiting
    then show ?thesis
      using True assms(3-5) by (cases "queue p") (simp_all add: workerStep_def)
  next
    case (Processing e)
    then show ?thesis
      using True assms(3-5)
      by (simp add: workerStep_def processPackage_results rowOf_rel [OF assms(1,2)])
  next
    case Finished
    then show ?thesis
      using assms(3-5) by (simp add: workerStep_noop)
  qed
qed

lemma runSchedule_rel:
  assumes "sameSettings cfg cfg'" "sameWorld E E'"
  shows "queue p' = queue p \<and> workers p' = workers p \<and> results (glob p') = results (glob p) \<Longrightarrow>
     queue (runSchedule E' cfg' sch p') = queue (runSchedule E cfg sch p)
     \<and> workers (runSchedule E' cfg' sch p') = workers (runSchedule E cfg sch p)
     \<and> results (glob (runSchedule E' cfg' sch p')) = results (glob (runSchedule E cfg sch p))"
proof (induction sch arbitrary: p p')
  case Nil
  then show ?case by simp
next
  case (Cons i sch)
  have "queue (workerStep E' cfg' i p') = queue (workerStep E cfg i p)
     \<and> workers (workerStep E' cfg' i p') = workers (workerStep E cfg i p)
     \<and> results (glob (workerStep E' cfg' i p')) = results (glob (workerStep E cfg i p))"
    using Cons.prems by (intro workerStep_rel [OF assms]) simp_all
  then show ?case
    using Cons.IH by simp
qed

lemma run_rel:
  assumes "sameSettings cfg cfg'" "sameWorld E E'"
  shows "run E' cfg' sch es = run E cfg sch es"
proof -
  have j: "jobs cfg' = jobs cfg"
    using assms(1) by (simp add: sameSettings_def)
  have l: "localeCompare E' = localeCompare E"
    using assms(2) by (simp add: sameWorld_def)
  have s: "sortedResults E' rs = sortedResults E rs" for rs
    unfolding sortedResults_def compareResults_def l ..
  have "queue (runSchedule E' cfg' sch (startPool cfg' es)) = queue (runSchedule E cfg sch (startPool cfg es))
     \<and> workers (runSchedule E' cfg' sch (startPool cfg' es)) = workers (runSchedule E cfg sch (startPool cfg es))
     \<and> results (glob (runSchedule E' cfg' sch (startPool cfg' es)))
         = results (glob (runSchedule E cfg sch (startPool cfg es)))"
    by (rule runSchedule_rel [OF assms]) (simp add: j)
  then show ?thesis
    by (simp add: run_def Let_def allFinished_def s)
qed

text \<open>
  Claim C9. Take two runs whose configurations differ at most in \<open>showProgress\<close> and
  \<open>verbose\<close>, whose clocks may differ, and whose globals may differ in everything but
  the rows pushed so far (the finished counter, the status of each worker, the time of
  the last redraw, what was drawn). Then \<^verbatim>\<open>processPackage\<close> leaves the same rows in
  both, and under the same schedule \<^verbatim>\<open>run\<close> returns the same rows in both.
\<close>

theorem display_is_observational:
  assumes "sameSettings cfg cfg'" and "sameWorld E E'" and "results g' = results g"
  shows "results (processPackage E' cfg' entry w' g') = results (processPackage E cfg entry w g)
     \<and> run E' cfg' sch es = run E cfg sch es"
  using assms(3) run_rel [OF assms(1,2)]
  by (simp add: processPackage_results rowOf_rel [OF assms(1,2)])


section \<open>The properties on the example registry\<close>

lemma demo_fair:
  "\<forall>i < min (jobs demoConfig) (length demoEntries).
     2 * length demoEntries + min (jobs demoConfig) (length demoEntries)
       \<le> count_list demoSchedule i"
proof (intro allI impI)
  fix i
  assume "i < min (jobs demoConfig) (length demoEntries)"
  then have "i = 0 \<or> i = 1"
    by (auto simp: demoConfig_def demoEntries_def)
  then show "2 * length demoEntries + min (jobs demoConfig) (length demoEntries)
       \<le> count_list demoSchedule i"
    by (auto simp: demoConfig_def demoEntries_def demoSchedule_def)
qed

theorem one_row_per_entry_witness:
  "0 < jobs demoConfig
   \<and> count_list demoSchedule 0 = 8 \<and> count_list demoSchedule 1 = 8
   \<and> run demoEnv demoConfig demoSchedule demoEntries \<noteq> None
   \<and> length (the (run demoEnv demoConfig demoSchedule demoEntries)) = 3
   \<and> mset (map name (the (run demoEnv demoConfig demoSchedule demoEntries)))
       = mset [''plain'', ''ghost'', ''mixed'']"
proof -
  have j: "0 < jobs demoConfig"
    by (simp add: demoConfig_def)
  note inst = one_row_per_entry [OF j, of demoEnv demoSchedule demoEntries]
  have ends: "run demoEnv demoConfig demoSchedule demoEntries \<noteq> None"
    using inst demo_fair by blast
  then obtain out where out: "run demoEnv demoConfig demoSchedule demoEntries = Some out"
    by auto
  then have "length out = length demoEntries \<and> mset (map name out) = mset (map name demoEntries)"
    using inst by blast
  then show ?thesis
    using j ends out by (simp add: demoEntries_def demoSchedule_def)
qed

theorem metadata_failure_witness:
  "npm_view demoEnv ''ghost'' = None
   \<and> results (processPackage demoEnv demoConfig
        \<lparr>name = ''ghost'', current = ''1.2.0'', isDev = False\<rparr> 0 demoGlobals)
      = [failureInfo \<lparr>name = ''ghost'', current = ''1.2.0'', isDev = False\<rparr>]
   \<and> note' (failureInfo \<lparr>name = ''ghost'', current = ''1.2.0'', isDev = False\<rparr>)
      = Some ''Failed to fetch metadata''
   \<and> workers (workerStep demoEnv demoConfig 0
        \<lparr>queue = [\<lparr>name = ''mixed'', current = ''2.0.0'', isDev = False\<rparr>],
         workers = [Processing \<lparr>name = ''ghost'', current = ''1.2.0'', isDev = False\<rparr>],
         glob = demoGlobals\<rparr>) ! 0 = Waiting
   \<and> workers (workerStep demoEnv demoConfig 0 (workerStep demoEnv demoConfig 0
        \<lparr>queue = [\<lparr>name = ''mixed'', current = ''2.0.0'', isDev = False\<rparr>],
         workers = [Processing \<lparr>name = ''ghost'', current = ''1.2.0'', isDev = False\<rparr>],
         glob = demoGlobals\<rparr>)) ! 0
      = Processing \<lparr>name = ''mixed'', current = ''2.0.0'', isDev = False\<rparr>
   \<and> 0 < jobs demoConfig
   \<and> run demoEnv demoConfig demoSchedule demoEntries \<noteq> None
   \<and> mset (the (run demoEnv demoConfig demoSchedule demoEntries))
      = add_mset (failureInfo \<lparr>name = ''ghost'', current = ''1.2.0'', isDev = False\<rparr>)
          (image_mset (rowOf demoEnv demoConfig)
            (mset [\<lparr>name = ''plain'', current = ''^1.0.0'', isDev = True\<rparr>,
                   \<lparr>name = ''mixed'', current = ''2.0.0'', isDev = False\<rparr>]))"
proof -
  let ?ghost = "\<lparr>name = ''ghost'', current = ''1.2.0'', isDev = False\<rparr>"
  let ?plain = "\<lparr>name = ''plain'', current = ''^1.0.0'', isDev = True\<rparr>"
  let ?mixed = "\<lparr>name = ''mixed'', current = ''2.0.0'', isDev = False\<rparr>"
  let ?p = "\<lparr>queue = [?mixed], workers = [Processing ?ghost], glob = demoGlobals\<rparr>"
  have m: "npm_view demoEnv (name ?ghost) = None"
    by (simp add: demoEnv_def demoMeta_def)
  have j: "0 < jobs demoConfig"
    by (simp add: demoConfig_def)
  have es: "[?plain] @ ?ghost # [?mixed] = demoEntries"
    by (simp add: demoEntries_def)
  have g: "results demoGlobals = []"
    by (simp add: demoGlobals_def)
  note inst = metadata_failure [OF m, of demoConfig 0 demoGlobals ?p demoSchedule "[?plain]" "[?mixed]",
      unfolded es]
  have ends: "run demoEnv demoConfig demoSchedule demoEntries \<noteq> None"
    using inst j demo_fair by blast
  then obtain out where out: "run demoEnv demoConfig demoSchedule demoEntries = Some out"
    by auto
  then have rows: "mset out = add_mset (failureInfo ?ghost)
      (image_mset (rowOf demoEnv demoConfig) (mset ([?plain] @ [?mixed])))"
    using inst j by blast
  have w: "0 < length (workers ?p) \<and> workers ?p ! 0 = Processing ?ghost"
    by simp
  have step: "workers (workerStep demoEnv demoConfig 0 ?p) ! 0 = Waiting
      \<and> workers (workerStep demoEnv demoConfig 0 (workerStep demoEnv demoConfig 0 ?p)) ! 0
          = Processing ?mixed"
    using inst w by simp
  have res: "results (processPackage demoEnv demoConfig ?ghost 0 demoGlobals) = [failureInfo ?ghost]"
    using inst g by simp
  have nt: "note' (failureInfo ?ghost) = Some ''Failed to fetch metadata''"
    using inst by blast
  show ?thesis
    using m j ends out rows step res nt by simp
qed

theorem display_is_observational_witness:
  "sameSettings demoConfig (demoConfig\<lparr>showProgress := True, verbose := True\<rparr>)
   \<and> sameWorld demoEnv (demoEnv\<lparr>date_now := (\<lambda>k. 0)\<rparr>)
   \<and> results (demoGlobals\<lparr>finished := 5, displayInitialized := True\<rparr>) = results demoGlobals
   \<and> results (processPackage (demoEnv\<lparr>date_now := (\<lambda>k. 0)\<rparr>)
        (demoConfig\<lparr>showProgress := True, verbose := True\<rparr>)
        \<lparr>name = ''mixed'', current = ''2.0.0'', isDev = False\<rparr> 1
        (demoGlobals\<lparr>finished := 5, displayInitialized := True\<rparr>))
      = results (processPackage demoEnv demoConfig
        \<lparr>name = ''mixed'', current = ''2.0.0'', isDev = False\<rparr> 0 demoGlobals)
   \<and> run (demoEnv\<lparr>date_now := (\<lambda>k. 0)\<rparr>) (demoConfig\<lparr>showProgress := True, verbose := True\<rparr>)
        demoSchedule demoEntries
      = run demoEnv demoConfig demoSchedule demoEntries"
proof -
  have s: "sameSettings demoConfig (demoConfig\<lparr>showProgress := True, verbose := True\<rparr>)"
    by (simp add: sameSettings_def)
  have w: "sameWorld demoEnv (demoEnv\<lparr>date_now := (\<lambda>k. 0)\<rparr>)"
    by (simp add: sameWorld_def)
  have g: "results (demoGlobals\<lparr>finished := 5, displayInitialized := True\<rparr>) = results demoGlobals"
    by simp
  show ?thesis
    using display_is_observational [OF s w g] s w g by simp
qed


text \<open>The run of the example: the rows come out with the dependencies first, by name.\<close>

lemma demo_run_names:
  "map_option (map name) (run demoEnv demoConfig demoSchedule demoEntries)
     = Some [''ghost'', ''mixed'', ''plain'']"
  by code_simp

end
